theory Spec2Isabelle
  imports Complex_Main "HOL-Library.Multiset"
begin

section \<open>The bubble game of App.tsx as a state machine\<close>

text \<open>
  The component \<open>App\<close> keeps its state in React state cells and changes it in event
  handlers, in the callback of one interval timer and in callbacks handed to
  \<open>setTimeout\<close>. The embedding is explicit state passing: one record for the cells,
  one function per handler. A handler reads the cells of the render it was created in and
  writes them with the setters; the functions below read the state they are given and
  return the updated one.

  The repository holds the component twice. The second copy has no onboarding tour: no
  \<open>isTourActive\<close> cell, no tour handlers, and neither the timer effect nor
  \<open>handleBubbleClick\<close> tests the flag; everything else is the same text. It is the
  model below with \<open>isTourActive\<close> never set, which is the case from an initial
  state with \<open>hasSeenTour\<close> as long as the tour is not reset.

  JavaScript numbers are doubles. \<open>level\<close>, \<open>score\<close> and \<open>wrongAttempts\<close> only take
  integer values far below \<open>2^53\<close>, where the arithmetic of doubles is exact, and are
  modelled as \<open>int\<close>. \<open>timeLeft\<close> and the values of the equations are modelled as the
  rationals they denote; the one operation on them that rounds, the subtraction in the
  countdown, rounds in the model as well (see the subsection on doubles).
\<close>

subsection \<open>Data\<close>

text \<open>\<open>Equation\<close> as App.tsx uses it (\<open>e.id\<close>, \<open>e.value\<close>; \<open>expression\<close> is what
  a bubble displays). The field \<open>id\<close> is \<open>ident\<close> and \<open>value\<close> is \<open>val\<close> here.\<close>

record equation =
  ident :: string
  expression :: string
  val :: rat

datatype feedback = Neutral | Correct | Wrong

text \<open>The three callbacks the handlers pass to \<open>setTimeout\<close>. A callback keeps the
  \<open>level\<close> of the render that created it, so the level it hands to \<open>startLevel\<close> is
  stored with it.\<close>

datatype delayed =
    AdvanceLevel int   \<comment> \<open>\<open>setLevel(prev => prev + 1); startLevel(level + 1)\<close>, holding \<open>level + 1\<close>\<close>
  | RestartLevel int   \<comment> \<open>\<open>startLevel(level)\<close>, holding \<open>level\<close>\<close>
  | ResetFeedback      \<comment> \<open>\<open>setFeedbackStatus('neutral')\<close>\<close>

text \<open>The state cells of \<open>App\<close>, and beside them what the browser holds for it: the
  \<open>hasSeenTour\<close> flag of local storage, whether the interval of the timer effect is
  live, how many batches have been generated so far (this also tells one \<open>equations\<close>
  array from the next, as the dependency list of the timer effect does by reference), and
  the timeouts that are scheduled and have not fired, each with its delay in
  milliseconds.\<close>

record game =
  isPlaying :: bool
  level :: int
  score :: int
  timeLeft :: rat
  equations :: "equation list"
  selectedIds :: "string list"
  gameOver :: bool
  wrongAttempts :: int
  feedbackStatus :: feedback
  isTourActive :: bool
  hasSeenTour :: bool
  timerOn :: bool
  batchNo :: nat
  pending :: "(nat \<times> delayed) list"

text \<open>\<open>generateEquations\<close> is imported from the module \<open>gameLogic\<close> and draws at
  random. The state machine takes it as a parameter: the batch returned by the \<open>k\<close>-th
  call, for the level asked.\<close>

type_synonym generator = "nat \<Rightarrow> int \<Rightarrow> equation list"

definition initState :: "bool \<Rightarrow> game" where
  "initState seen =
     \<lparr> isPlaying = False, level = 1, score = 0, timeLeft = 15, equations = [],
       selectedIds = [], gameOver = False, wrongAttempts = 0, feedbackStatus = Neutral,
       isTourActive = False, hasSeenTour = seen, timerOn = False, batchNo = 0,
       pending = [] \<rparr>"

subsection \<open>Doubles\<close>

text \<open>\<open>timeLeft\<close> is an IEEE 754 double. A double is modelled as the rational it
  denotes, and \<open>prev - 0.1\<close> as the exact difference rounded to the nearest double, ties
  to even (\<open>toDouble\<close>); the literal \<open>0.1\<close> is the double nearest to one tenth. The
  doubles of the binade from \<open>2^e\<close> up to \<open>2^(e+1)\<close> are the multiples of
  \<open>2^(e - 52)\<close>, and the subnormal ones the multiples of \<open>2^(-1074)\<close>. Overflow to
  infinity is not modelled: no number of the game comes near \<open>2^1024\<close>.\<close>

definition pow2 :: "int \<Rightarrow> rat" where
  "pow2 k = (if 0 \<le> k then 2 ^ nat k else 1 / 2 ^ nat (- k))"

fun bitLength :: "nat \<Rightarrow> nat" where
  "bitLength n = (if n = 0 then 0 else Suc (bitLength (n div 2)))"

declare bitLength.simps [simp del]

text \<open>For \<open>0 < x\<close>, the \<open>e\<close> with \<open>2^e \<le> x < 2^(e+1)\<close>.\<close>

definition binade :: "rat \<Rightarrow> int" where
  "binade x =
     (if 1 \<le> x then int (bitLength (nat \<lfloor>x\<rfloor>)) - 1
      else - int (bitLength (nat \<lceil>1 / x\<rceil> - 1)))"

definition roundEven :: "rat \<Rightarrow> int" where
  "roundEven y =
     (let f = \<lfloor>y\<rfloor>; r = y - of_int f
      in if r < 1 / 2 then f else if 1 / 2 < r then f + 1 else if even f then f else f + 1)"

definition toDouble :: "rat \<Rightarrow> rat" where
  "toDouble x =
     (if x = 0 then 0
      else (let q = max (binade \<bar>x\<bar> - 52) (- 1074)
            in sgn x * of_int (roundEven (\<bar>x\<bar> / pow2 q)) * pow2 q))"

text \<open>The literal \<open>0.1\<close>.\<close>

definition doubleTenth :: rat where
  "doubleTenth = toDouble (1 / 10)"

subsection \<open>The timer effect\<close>

text \<open>The effect with dependencies \<open>[isPlaying, gameOver, level, equations, isTourActive]\<close>
  runs again when one of them changed: its cleanup clears the old interval, and a new one
  is set unless \<open>!isPlaying || gameOver || isTourActive\<close>.\<close>

definition timerDeps :: "game \<Rightarrow> bool \<times> bool \<times> int \<times> nat \<times> bool" where
  "timerDeps s = (isPlaying s, gameOver s, level s, batchNo s, isTourActive s)"

definition timerEffect :: "game \<Rightarrow> game \<Rightarrow> game" where
  "timerEffect old new =
     (if timerDeps old = timerDeps new then new
      else new\<lparr>timerOn := (isPlaying new \<and> \<not> gameOver new \<and> \<not> isTourActive new)\<rparr>)"

subsection \<open>Handlers\<close>

definition startLevel :: "generator \<Rightarrow> int \<Rightarrow> game \<Rightarrow> game" where
  "startLevel gen currentLevel s =
     s\<lparr> equations := gen (batchNo s) currentLevel,
        batchNo := Suc (batchNo s),
        selectedIds := [],
        timeLeft := 15,
        feedbackStatus := Neutral \<rparr>"

definition startGame :: "generator \<Rightarrow> game \<Rightarrow> game" where
  "startGame gen s =
     (let s1 = startLevel gen 1
                 (s\<lparr>isPlaying := True, gameOver := False, score := 0, level := 1,
                    wrongAttempts := 0\<rparr>);
          s2 = (if \<not> hasSeenTour s then s1\<lparr>isTourActive := True\<rparr> else s1)
      in timerEffect s s2)"

definition endTour :: "game \<Rightarrow> game" where
  "endTour s = timerEffect s (s\<lparr>isTourActive := False, hasSeenTour := True\<rparr>)"

text \<open>The "Reset Tour" button.\<close>

definition resetTour :: "game \<Rightarrow> game" where
  "resetTour s = timerEffect s (s\<lparr>hasSeenTour := False, isTourActive := True\<rparr>)"

definition handleTimeUp :: "game \<Rightarrow> game" where
  "handleTimeUp s =
     s\<lparr> wrongAttempts := wrongAttempts s + 1,
        feedbackStatus := Wrong,
        pending := pending s @ [(1000, RestartLevel (level s))] \<rparr>"

definition handleStopGame :: "game \<Rightarrow> game" where
  "handleStopGame s = timerEffect s (s\<lparr>gameOver := True\<rparr>)"

text \<open>The callback of the interval, every 100 ms while the interval is live.\<close>

definition tick :: "game \<Rightarrow> game" where
  "tick s =
     (if timeLeft s \<le> doubleTenth
      then (handleTimeUp (s\<lparr>timerOn := False\<rparr>))\<lparr>timeLeft := 0\<rparr>
      else s\<lparr>timeLeft := toDouble (timeLeft s - doubleTenth)\<rparr>)"

text \<open>\<open>x || 0\<close> on a number: \<open>0\<close> is the only falsy value of the model.\<close>

definition orZero :: "rat \<Rightarrow> rat" where
  "orZero x = (if x = 0 then 0 else x)"

text \<open>\<open>equations.find(e => e.id === id)?.value || 0\<close>\<close>

definition resolveValue :: "equation list \<Rightarrow> string \<Rightarrow> rat" where
  "resolveValue eqs i =
     (case find (\<lambda>e. ident e = i) eqs of None \<Rightarrow> 0 | Some e \<Rightarrow> orZero (val e))"

definition selectedValues :: "equation list \<Rightarrow> string list \<Rightarrow> rat list" where
  "selectedValues eqs selected = map (resolveValue eqs) selected"

text \<open>An array read: out of range it is \<open>undefined\<close>, and \<open><=\<close> with \<open>undefined\<close> on
  either side is false.\<close>

definition arrayAt :: "rat list \<Rightarrow> nat \<Rightarrow> rat option" where
  "arrayAt xs n = (if n < length xs then Some (xs ! n) else None)"

definition jsLe :: "rat option \<Rightarrow> rat option \<Rightarrow> bool" where
  "jsLe a b = (case a of None \<Rightarrow> False | Some x \<Rightarrow> (case b of None \<Rightarrow> False | Some y \<Rightarrow> x \<le> y))"

definition isCorrect :: "rat list \<Rightarrow> bool" where
  "isCorrect vs = (jsLe (arrayAt vs 0) (arrayAt vs 1) \<and> jsLe (arrayAt vs 1) (arrayAt vs 2))"

definition validateSelection :: "game \<Rightarrow> string list \<Rightarrow> game" where
  "validateSelection s selected =
     (if isCorrect (selectedValues (equations s) selected)
      then s\<lparr> feedbackStatus := Correct,
              score := score s + level s * 10 + \<lfloor>timeLeft s\<rfloor>,
              pending := pending s @ [(1000, AdvanceLevel (level s + 1))] \<rparr>
      else s\<lparr> feedbackStatus := Wrong,
              wrongAttempts := wrongAttempts s + 1,
              pending := pending s @ [(500, ResetFeedback)] \<rparr>)"

definition handleBubbleClick :: "game \<Rightarrow> string \<Rightarrow> game" where
  "handleBubbleClick s i =
     (if gameOver s \<or> feedbackStatus s \<noteq> Neutral \<or> isTourActive s then s
      else if i \<in> set (selectedIds s)
      then s\<lparr>selectedIds := filter (\<lambda>selectedId. selectedId \<noteq> i) (selectedIds s)\<rparr>
      else (let newSelected = selectedIds s @ [i];
                s1 = s\<lparr>selectedIds := newSelected\<rparr>
            in if length newSelected = 3 then validateSelection s1 newSelected else s1))"

subsection \<open>Timeouts firing\<close>

definition runDelayed :: "generator \<Rightarrow> delayed \<Rightarrow> game \<Rightarrow> game" where
  "runDelayed gen d s =
     (case d of
        AdvanceLevel lv \<Rightarrow> timerEffect s (startLevel gen lv (s\<lparr>level := level s + 1\<rparr>))
      | RestartLevel lv \<Rightarrow> timerEffect s (startLevel gen lv s)
      | ResetFeedback \<Rightarrow> s\<lparr>feedbackStatus := Neutral\<rparr>)"

text \<open>The \<open>n\<close>-th scheduled timeout fires: it leaves the list and its callback runs.\<close>

definition fire :: "generator \<Rightarrow> game \<Rightarrow> nat \<Rightarrow> game" where
  "fire gen s n =
     runDelayed gen (snd (pending s ! n))
       (s\<lparr>pending := take n (pending s) @ drop (Suc n) (pending s)\<rparr>)"

subsection \<open>Runs\<close>

text \<open>What can happen to the component: the player's buttons and bubbles, the tour ending,
  a tick of the interval (only while it is live) and a scheduled timeout firing (only
  one that is scheduled). The browser fires timeouts in the order of their due times, and
  the page shows a button or a bubble only in some states; the runs below let any
  scheduled timeout fire and let the player's events happen in every state, so every run
  of the browser is among them.\<close>

datatype event =
  StartGame | StopGame | BubbleClick string | Tick | Fire nat | EndTour | ResetTour

fun step :: "generator \<Rightarrow> game \<Rightarrow> event \<Rightarrow> game option" where
  "step gen s StartGame = Some (startGame gen s)"
| "step gen s StopGame = Some (handleStopGame s)"
| "step gen s (BubbleClick i) = Some (handleBubbleClick s i)"
| "step gen s Tick = (if timerOn s then Some (tick s) else None)"
| "step gen s (Fire n) = (if n < length (pending s) then Some (fire gen s n) else None)"
| "step gen s EndTour = Some (endTour s)"
| "step gen s ResetTour = Some (resetTour s)"

fun run :: "generator \<Rightarrow> game \<Rightarrow> event list \<Rightarrow> game option" where
  "run gen s [] = Some s"
| "run gen s (e # es) = (case step gen s e of None \<Rightarrow> None | Some s' \<Rightarrow> run gen s' es)"

text \<open>The interval is live only while the game is played, not over and the tour is off.\<close>

definition timerSound :: "game \<Rightarrow> bool" where
  "timerSound s = (if timerOn s then isPlaying s \<and> \<not> gameOver s \<and> \<not> isTourActive s else True)"

text \<open>The time left is between 0 and the 15 seconds of a round.\<close>

definition timeInRange :: "game \<Rightarrow> bool" where
  "timeInRange s = (0 \<le> timeLeft s \<and> timeLeft s \<le> 15)"

text \<open>The tour is off and will not start with the next game.\<close>

definition tourOff :: "game \<Rightarrow> bool" where
  "tourOff s = (\<not> isTourActive s \<and> hasSeenTour s)"

text \<open>A fixed generator and batch for the concrete runs below: the same three equations
  at every call, displayed in the order B, A, C with the values 5, 2, 9.\<close>

definition demoBatch :: "equation list" where
  "demoBatch =
     [\<lparr>ident = ''B'', expression = ''2 + 3'', val = 5\<rparr>,
      \<lparr>ident = ''A'', expression = ''1 + 1'', val = 2\<rparr>,
      \<lparr>ident = ''C'', expression = ''4 + 5'', val = 9\<rparr>]"

definition demoGen :: generator where
  "demoGen k lv = demoBatch"

text \<open>Concrete states for the worked examples: a game just started by a player who has
  seen the tour, the same game after tapping A, B, C (values 2, 5, 9), and a first game,
  which starts with the tour active.\<close>

definition demoState :: game where
  "demoState = startGame demoGen (initState True)"

definition wonState :: game where
  "wonState =
     handleBubbleClick (handleBubbleClick (handleBubbleClick demoState ''A'') ''B'') ''C''"

definition tourState :: game where
  "tourState = startGame demoGen (initState False)"

text \<open>What \<open>timeLeft\<close> holds at the start of a round and after each of the first 150
  ticks, as doubles compute it: 15, 14.9, 14.8, 14.700000000000001, ..., 
  0.10000000000003656, 3.655409308578328e-14.\<close>

definition countdownValues :: "rat list" where
  "countdownValues =
     [15,
      8387954305977549 / 562949953421312,
      4165829655317709 / 281474976710656,
      8275364315293287 / 562949953421312,
      2054767329987789 / 140737488355328,
      8162774324609025 / 562949953421312,
      4053239664633447 / 281474976710656,
      8050184333924763 / 562949953421312,
      999236167322829 / 70368744177664,
      7937594343240501 / 562949953421312,
      3940649673949185 / 281474976710656,
      7825004352556239 / 562949953421312,
      1942177339303527 / 140737488355328,
      7712414361871977 / 562949953421312,
      3828059683264923 / 281474976710656,
      7599824371187715 / 562949953421312,
      471470585990349 / 35184372088832,
      7487234380503453 / 562949953421312,
      3715469692580661 / 281474976710656,
      7374644389819191 / 562949953421312,
      1829587348619265 / 140737488355328,
      7262054399134929 / 562949953421312,
      3602879701896399 / 281474976710656,
      7149464408450667 / 562949953421312,
      886646176638567 / 70368744177664,
      7036874417766405 / 562949953421312,
      3490289711212137 / 281474976710656,
      6924284427082143 / 562949953421312,
      1716997357935003 / 140737488355328,
      6811694436397881 / 562949953421312,
      3377699720527875 / 281474976710656,
      6699104445713619 / 562949953421312,
      207587795324109 / 17592186044416,
      6586514455029357 / 562949953421312,
      3265109729843613 / 281474976710656,
      6473924464345095 / 562949953421312,
      1604407367250741 / 140737488355328,
      6361334473660833 / 562949953421312,
      3152519739159351 / 281474976710656,
      6248744482976571 / 562949953421312,
      774056185954305 / 70368744177664,
      6136154492292309 / 562949953421312,
      3039929748475089 / 281474976710656,
      6023564501608047 / 562949953421312,
      1491817376566479 / 140737488355328,
      5910974510923785 / 562949953421312,
      2927339757790827 / 281474976710656,
      5798384520239523 / 562949953421312,
      358880595306087 / 35184372088832,
      5685794529555261 / 562949953421312,
      2814749767106565 / 281474976710656,
      5573204538870999 / 562949953421312,
      1379227385882217 / 140737488355328,
      5460614548186737 / 562949953421312,
      2702159776422303 / 281474976710656,
      5348024557502475 / 562949953421312,
      661466195270043 / 70368744177664,
      5235434566818213 / 562949953421312,
      2589569785738041 / 281474976710656,
      5122844576133951 / 562949953421312,
      1266637395197955 / 140737488355328,
      5010254585449689 / 562949953421312,
      2476979795053779 / 281474976710656,
      4897664594765427 / 562949953421312,
      75646399990989 / 8796093022208,
      4785074604081165 / 562949953421312,
      2364389804369517 / 281474976710656,
      4672484613396903 / 562949953421312,
      1154047404513693 / 140737488355328,
      4559894622712641 / 562949953421312,
      2251799813685255 / 281474976710656,
      4447304632028379 / 562949953421312,
      548876204585781 / 70368744177664,
      4334714641344117 / 562949953421312,
      2139209823000993 / 281474976710656,
      4222124650659855 / 562949953421312,
      1041457413829431 / 140737488355328,
      4109534659975593 / 562949953421312,
      2026619832316731 / 281474976710656,
      3996944669291331 / 562949953421312,
      246290604621825 / 35184372088832,
      3884354678607069 / 562949953421312,
      1914029841632469 / 281474976710656,
      3771764687922807 / 562949953421312,
      928867423145169 / 140737488355328,
      3659174697238545 / 562949953421312,
      1801439850948207 / 281474976710656,
      3546584706554283 / 562949953421312,
      436286213901519 / 70368744177664,
      3433994715870021 / 562949953421312,
      1688849860263945 / 281474976710656,
      3321404725185759 / 562949953421312,
      816277432460907 / 140737488355328,
      3208814734501497 / 562949953421312,
      1576259869579683 / 281474976710656,
      3096224743817235 / 562949953421312,
      94997804639847 / 17592186044416,
      2983634753132973 / 562949953421312,
      1463669878895421 / 281474976710656,
      2871044762448711 / 562949953421312,
      703687441776645 / 140737488355328,
      2758454771764449 / 562949953421312,
      1351079888211159 / 281474976710656,
      2645864781080187 / 562949953421312,
      323696223217257 / 70368744177664,
      2533274790395925 / 562949953421312,
      1238489897526897 / 281474976710656,
      2420684799711663 / 562949953421312,
      591097451092383 / 140737488355328,
      2308094809027401 / 562949953421312,
      1125899906842635 / 281474976710656,
      8782019273372555 / 2251799813685248,
      4278419646002015 / 1125899906842624,
      8331659310635505 / 2251799813685248,
      2026619832316745 / 562949953421312,
      7881299347898455 / 2251799813685248,
      3828059683264965 / 1125899906842624,
      7430939385161405 / 2251799813685248,
      450359962737055 / 140737488355328,
      6980579422424355 / 2251799813685248,
      3377699720527915 / 1125899906842624,
      6530219459687305 / 2251799813685248,
      1576259869579695 / 562949953421312,
      6079859496950255 / 2251799813685248,
      2927339757790865 / 1125899906842624,
      5629499534213205 / 2251799813685248,
      675539944105585 / 281474976710656,
      5179139571476155 / 2251799813685248,
      2476979795053815 / 1125899906842624,
      4728779608739105 / 2251799813685248,
      1125899906842645 / 562949953421312,
      4278419646002055 / 2251799813685248,
      2026619832316765 / 1125899906842624,
      3828059683265005 / 2251799813685248,
      112589990684265 / 70368744177664,
      3377699720527955 / 2251799813685248,
      1576259869579715 / 1125899906842624,
      2927339757790905 / 2251799813685248,
      675539944105595 / 562949953421312,
      2476979795053855 / 2251799813685248,
      1125899906842665 / 1125899906842624,
      8106479329267221 / 9007199254740992,
      3602879701896561 / 4503599627370496,
      6305039478319023 / 9007199254740992,
      1351079888211231 / 2251799813685248,
      4503599627370825 / 9007199254740992,
      1801439850948363 / 4503599627370496,
      2702159776422627 / 9007199254740992,
      7205759403794111 / 36028797018963968,
      1801439850948857 / 18014398509481984,
      1317 / 36028797018963968]"

text \<open>Each number of a list is above the literal \<open>0.1\<close> and the next one is what the
  countdown makes of it.\<close>

fun decrements :: "rat list \<Rightarrow> bool" where
  "decrements (a # b # r) =
     (\<not> a \<le> doubleTenth \<and> toDouble (a - doubleTenth) = b \<and> decrements (b # r))"
| "decrements r = True"





subsection \<open>The equation generator\<close>

text \<open>\<open>generateEquations\<close> and the module \<open>gameLogic\<close> that holds it are not
  among the sources; App.tsx only calls it. What follows is written from the spec's
  description of it. The display text of an equation is two operands and an operator
  sign between them, as in the spec's example \<open>4 + 5\<close>.\<close>

datatype operator = Plus | Minus | Times

fun applyOp :: "operator \<Rightarrow> int \<Rightarrow> int \<Rightarrow> int" where
  "applyOp Plus a b = a + b"
| "applyOp Minus a b = a - b"
| "applyOp Times a b = a * b"

fun opSymbol :: "operator \<Rightarrow> string" where
  "opSymbol Plus = ''+''"
| "opSymbol Minus = ''-''"
| "opSymbol Times = ''*''"

definition digitChar :: "nat \<Rightarrow> char" where
  "digitChar d = char_of (48 + d)"

fun showNat :: "nat \<Rightarrow> string" where
  "showNat n = (if n < 10 then [digitChar n] else showNat (n div 10) @ [digitChar (n mod 10)])"

declare showNat.simps [simp del]

definition render :: "nat \<Rightarrow> operator \<Rightarrow> nat \<Rightarrow> string" where
  "render a op b = showNat a @ '' '' @ opSymbol op @ '' '' @ showNat b"

text \<open>Modelled from the spec: "wider operand ranges and/or introduction of additional
  operators at higher levels". The spec fixes neither the ranges nor the operators; the
  bound \<open>5 + 5 * level\<close> and the operators \<open>+\<close>, then \<open>-\<close> from level 3 and
  \<open>*\<close> from level 5, are one choice within it.\<close>

definition operandBound :: "int \<Rightarrow> nat" where
  "operandBound lv = nat (5 + 5 * lv)"

definition operators :: "int \<Rightarrow> operator list" where
  "operators lv = (if lv < 3 then [Plus] else if lv < 5 then [Plus, Minus] else [Plus, Minus, Times])"

text \<open>Modelled from the spec: an equation is an id unique in its batch, a display text
  and "the pre-evaluated numeric result of the expression". The \<open>k\<close>-th equation of a
  batch takes three draws of the stream \<open>rnd\<close> and has the id \<open>eq\<close> followed by
  \<open>k\<close>; the form of the ids is not fixed by the spec.\<close>

definition makeEquation :: "(nat \<Rightarrow> nat) \<Rightarrow> int \<Rightarrow> nat \<Rightarrow> equation" where
  "makeEquation rnd lv k =
     (let a = 1 + rnd (3 * k) mod operandBound lv;
          b = 1 + rnd (3 * k + 1) mod operandBound lv;
          op = operators lv ! (rnd (3 * k + 2) mod length (operators lv))
      in \<lparr> ident = ''eq'' @ showNat k,
           expression = render a op b,
           val = of_int (applyOp op (int a) (int b)) \<rparr>)"

text \<open>Modelled from the spec: \<open>generate(level) -> sequence of exactly 3 Equation\<close>;
  "each call returns freshly generated content" (the random draws are the argument
  \<open>rnd\<close>); "generation always succeeds for any level >= 1. Level values below 1 are not
  a supported input" (the value \<open>None\<close>).\<close>

definition generate :: "(nat \<Rightarrow> nat) \<Rightarrow> int \<Rightarrow> equation list option" where
  "generate rnd lv = (if lv < 1 then None else Some (map (makeEquation rnd lv) [0, 1, 2]))"

text \<open>Reading a display text back: three words separated by single spaces, a decimal
  number, an operator sign and a decimal number, evaluated. This is what it means for a
  value to be the evaluation of an expression text.\<close>

definition digitVal :: "char \<Rightarrow> nat option" where
  "digitVal c = (if 48 \<le> (of_char c :: nat) \<and> (of_char c :: nat) \<le> 57
                 then Some (of_char c - 48) else None)"

fun readDigits :: "nat \<Rightarrow> string \<Rightarrow> nat option" where
  "readDigits acc [] = Some acc"
| "readDigits acc (c # cs) =
     (case digitVal c of None \<Rightarrow> None | Some d \<Rightarrow> readDigits (10 * acc + d) cs)"

definition readNat :: "string \<Rightarrow> nat option" where
  "readNat str = (if str = [] then None else readDigits 0 str)"

definition readOp :: "string \<Rightarrow> operator option" where
  "readOp str =
     (if str = ''+'' then Some Plus else if str = ''-'' then Some Minus
      else if str = ''*'' then Some Times else None)"

fun splitSpaces :: "string \<Rightarrow> string list" where
  "splitSpaces [] = [[]]"
| "splitSpaces (c # cs) =
     (if c = CHR '' '' then [] # splitSpaces cs
      else (case splitSpaces cs of [] \<Rightarrow> [[c]] | w # ws \<Rightarrow> (c # w) # ws))"

definition evalExpression :: "string \<Rightarrow> rat option" where
  "evalExpression str =
     (case splitSpaces str of
        [x, y, z] \<Rightarrow>
          (case readNat x of None \<Rightarrow> None
           | Some a \<Rightarrow>
             (case readOp y of None \<Rightarrow> None
              | Some op \<Rightarrow>
                (case readNat z of None \<Rightarrow> None
                 | Some b \<Rightarrow> Some (of_int (applyOp op (int a) (int b))))))
      | _ \<Rightarrow> None)"

text \<open>The generator as the state machine takes it: the \<open>k\<close>-th call uses the \<open>k\<close>-th
  stream of draws.\<close>

definition specGenerator :: "(nat \<Rightarrow> nat \<Rightarrow> nat) \<Rightarrow> generator" where
  "specGenerator rnds k lv = (case generate (rnds k) lv of None \<Rightarrow> [] | Some eqs \<Rightarrow> eqs)"

text \<open>A stream of draws for the worked example.\<close>

definition demoDraws :: "nat \<Rightarrow> nat" where
  "demoDraws n = 7 * n + 3"

section \<open>Properties\<close>

subsection \<open>Rounding to a double\<close>

text \<open>Evaluating a rounding on numerals.\<close>

lemma floor_rat_numeral: "\<lfloor>numeral a / numeral b :: rat\<rfloor> = numeral a div numeral b"
  by (metis floor_divide_of_int_eq of_int_numeral)

lemma ceiling_rat_numeral: "\<lceil>numeral a / numeral b :: rat\<rceil> = - (- numeral a div numeral b)"
  using ceiling_divide_eq_div [of "numeral a" "numeral b", where ?'a = rat] by simp

lemmas double_eval = toDouble_def binade_def roundEven_def pow2_def Let_def bitLength.simps
  floor_rat_numeral ceiling_rat_numeral

lemma doubleTenth_eq: "doubleTenth = 3602879701896397 / 36028797018963968"
  by (simp add: doubleTenth_def double_eval)

lemma doubleTenth_error: "\<bar>doubleTenth - 1 / 10\<bar> \<le> 1 / 2 ^ 50"
  by (simp add: doubleTenth_eq)

lemma pow2_pos: "0 < pow2 k"
  by (simp add: pow2_def)

lemma pow2_powi: "pow2 k = 2 powi k"
  by (simp add: pow2_def power_int_def inverse_eq_divide power_one_over)

lemma pow2_mono: "a \<le> b \<Longrightarrow> pow2 a \<le> pow2 b"
  by (simp add: pow2_powi power_int_increasing)

lemma roundEven_nonneg:
  assumes "0 \<le> y"
  shows "0 \<le> roundEven y"
proof -
  have "0 \<le> \<lfloor>y\<rfloor>" using assms by simp
  then show ?thesis by (simp add: roundEven_def Let_def)
qed

lemma roundEven_error: "\<bar>of_int (roundEven y) - y\<bar> \<le> 1 / 2"
proof -
  have l: "of_int \<lfloor>y\<rfloor> \<le> y" and u: "y < of_int \<lfloor>y\<rfloor> + 1"
    by linarith+
  show ?thesis
  proof (cases "y - of_int \<lfloor>y\<rfloor> < 1 / 2")
    case True
    then have "roundEven y = \<lfloor>y\<rfloor>" by (simp add: roundEven_def Let_def)
    with True l show ?thesis by simp
  next
    case False
    show ?thesis
    proof (cases "1 / 2 < y - of_int \<lfloor>y\<rfloor>")
      case True
      with False have "roundEven y = \<lfloor>y\<rfloor> + 1" by (simp add: roundEven_def Let_def)
      with True u show ?thesis by simp
    next
      case h: False
      with False have e: "y - of_int \<lfloor>y\<rfloor> = 1 / 2" by simp
      have "roundEven y = \<lfloor>y\<rfloor> \<or> roundEven y = \<lfloor>y\<rfloor> + 1"
        by (simp add: roundEven_def Let_def)
      with e show ?thesis by auto
    qed
  qed
qed

lemma toDouble_nonneg:
  assumes "0 \<le> x"
  shows "0 \<le> toDouble x"
proof (cases "x = 0")
  case True
  then show ?thesis by (simp add: toDouble_def)
next
  case False
  with assms have p: "0 < x" by simp
  define q where "q = max (binade \<bar>x\<bar> - 52) (- 1074)"
  have "0 \<le> \<bar>x\<bar> / pow2 q" using pow2_pos [of q] by simp
  then have "0 \<le> roundEven (\<bar>x\<bar> / pow2 q)" by (rule roundEven_nonneg)
  then have "0 \<le> (of_int (roundEven (\<bar>x\<bar> / pow2 q)) :: rat) * pow2 q"
    using pow2_pos [of q] by simp
  with p show ?thesis by (simp add: toDouble_def Let_def q_def)
qed

lemma bitLength_le: "n < 2 ^ k \<Longrightarrow> bitLength n \<le> k"
proof (induction k arbitrary: n)
  case 0
  then show ?case by (subst bitLength.simps) simp
next
  case (Suc k)
  show ?case
  proof (cases "n = 0")
    case True
    then show ?thesis by (subst bitLength.simps) simp
  next
    case False
    from Suc.prems have "n div 2 < 2 ^ k" by simp
    then have "bitLength (n div 2) \<le> k" by (rule Suc.IH)
    with False show ?thesis by (subst bitLength.simps) simp
  qed
qed

lemma binade_le:
  assumes "x < 2 ^ k" and "0 < k"
  shows "binade x \<le> int k - 1"
proof (cases "1 \<le> x")
  case True
  have "\<lfloor>x\<rfloor> < 2 ^ k" using assms(1) by (simp add: floor_less_iff)
  then have "nat \<lfloor>x\<rfloor> < 2 ^ k" using True by (simp add: nat_less_iff)
  then have "bitLength (nat \<lfloor>x\<rfloor>) \<le> k" by (rule bitLength_le)
  with True show ?thesis by (simp add: binade_def)
next
  case False
  then have "binade x \<le> 0" by (simp add: binade_def)
  with assms(2) show ?thesis by simp
qed

text \<open>\<open>binade\<close> is the exponent of the binade.\<close>

lemma bitLength_bounds: "0 < n \<Longrightarrow> 2 ^ (bitLength n - 1) \<le> n \<and> n < 2 ^ bitLength n"
proof (induction n rule: bitLength.induct)
  case (1 n)
  show ?case
  proof (cases "n div 2 = 0")
    case True
    with "1.prems" have n: "n = 1" by (simp add: div_eq_0_iff)
    have "bitLength (1 :: nat) = 1"
      by (subst bitLength.simps, simp) (subst bitLength.simps, simp)
    with n show ?thesis by simp
  next
    case False
    then have p: "0 < n div 2" by simp
    with "1.prems" have ih: "2 ^ (bitLength (n div 2) - 1) \<le> n div 2 \<and> n div 2 < 2 ^ bitLength (n div 2)"
      by (intro "1.IH") simp_all
    have b: "bitLength n = Suc (bitLength (n div 2))"
      using "1.prems" by (subst bitLength.simps) simp
    have "0 < bitLength (n div 2)"
      using p by (subst bitLength.simps) simp
    then have e: "bitLength n - 1 = Suc (bitLength (n div 2) - 1)"
      by (simp add: b)
    have "(2 :: nat) ^ (bitLength n - 1) = 2 * 2 ^ (bitLength (n div 2) - 1)"
      by (simp only: e power_Suc)
    also from ih have "\<dots> \<le> 2 * (n div 2)" by simp
    also have "\<dots> \<le> n" by simp
    finally have l: "2 ^ (bitLength n - 1) \<le> n" .
    from ih have "n div 2 + 1 \<le> 2 ^ bitLength (n div 2)" by simp
    then have "2 * (n div 2 + 1) \<le> 2 * 2 ^ bitLength (n div 2)" by simp
    moreover have "n < 2 * (n div 2 + 1)" by presburger
    ultimately have "n < 2 ^ bitLength n" by (simp add: b)
    with l show ?thesis by simp
  qed
qed

lemma binade_bounds:
  assumes "0 < x"
  shows "pow2 (binade x) \<le> x \<and> x < pow2 (binade x + 1)"
proof (cases "1 \<le> x")
  case True
  define n where "n = nat \<lfloor>x\<rfloor>"
  have n: "0 < n" using True by (simp add: n_def)
  have nx: "of_nat n \<le> x" "x < of_nat n + 1"
    using True by (simp_all add: n_def) linarith+
  from n have b: "2 ^ (bitLength n - 1) \<le> n" "n < 2 ^ bitLength n"
    using bitLength_bounds by blast+
  have bl: "0 < bitLength n" using n by (subst bitLength.simps) simp
  have e: "binade x = int (bitLength n) - 1" using True by (simp add: binade_def n_def)
  have "pow2 (binade x) = 2 ^ (bitLength n - 1)"
    using bl by (simp add: e pow2_def nat_diff_distrib')
  also have "\<dots> \<le> of_nat n"
    using b(1) by (metis of_nat_le_iff of_nat_numeral of_nat_power)
  finally have l: "pow2 (binade x) \<le> x" using nx(1) by simp
  have "n + 1 \<le> 2 ^ bitLength n" using b(2) by simp
  then have "(of_nat (n + 1) :: rat) \<le> of_nat (2 ^ bitLength n)"
    by (simp only: of_nat_le_iff)
  then have "(of_nat n :: rat) + 1 \<le> 2 ^ bitLength n" by simp
  with nx(2) have "x < 2 ^ bitLength n" by simp
  moreover have "pow2 (binade x + 1) = 2 ^ bitLength n"
    by (simp add: e pow2_def)
  ultimately show ?thesis using l by simp
next
  case False
  define N where "N = nat \<lceil>1 / x\<rceil>"
  from False assms have i: "1 < 1 / x" by simp
  then have c: "1 < \<lceil>1 / x\<rceil>" by (simp add: less_ceiling_iff)
  then have N2: "2 \<le> N" unfolding N_def by linarith
  have Nx: "1 / x \<le> of_nat N" "of_nat N - 1 < 1 / x"
    using c by (simp_all add: N_def) linarith+
  define m where "m = bitLength (N - 1)"
  have "0 < N - 1" using N2 by simp
  then have b: "2 ^ (m - 1) \<le> N - 1" "N - 1 < 2 ^ m"
    using bitLength_bounds [of "N - 1"] by (simp_all add: m_def)
  have m0: "0 < m" using \<open>0 < N - 1\<close> unfolding m_def by (subst bitLength.simps) simp
  have e: "binade x = - int m" using False by (simp add: binade_def N_def m_def)
  have "N \<le> 2 ^ m" using b(2) N2 by simp
  then have "(of_nat N :: rat) \<le> of_nat (2 ^ m)" by (simp only: of_nat_le_iff)
  then have "(of_nat N :: rat) \<le> 2 ^ m" by simp
  with Nx(1) have "1 / x \<le> 2 ^ m" by (rule order_trans)
  then have l: "1 / 2 ^ m \<le> x"
    using assms by (simp add: field_simps)
  have "(of_nat (2 ^ (m - 1)) :: rat) \<le> of_nat (N - 1)" using b(1) by (simp only: of_nat_le_iff)
  then have "(2 :: rat) ^ (m - 1) \<le> of_nat N - 1" using N2 by (simp add: of_nat_diff)
  then have "2 ^ (m - 1) < 1 / x" using Nx(2) by (rule le_less_trans)
  then have u: "x < 1 / 2 ^ (m - 1)"
    using assms by (simp add: field_simps)
  have "pow2 (binade x) = 1 / 2 ^ m" using m0 by (simp add: e pow2_def)
  moreover have "pow2 (binade x + 1) = 1 / 2 ^ (m - 1)"
  proof (cases "m = 1")
    case True
    then show ?thesis by (simp add: e pow2_def)
  next
    case False
    with m0 have "- int m + 1 < 0" by simp
    moreover have "nat (- (- int m + 1)) = m - 1" by simp
    ultimately show ?thesis by (simp add: e pow2_def)
  qed
  ultimately show ?thesis using l u by simp
qed

text \<open>Below 16 a double is a multiple of \<open>2^(-49)\<close> or of a smaller power of two:
  rounding moves a number by at most \<open>2^(-50)\<close>.\<close>

lemma toDouble_error:
  assumes "0 \<le> x" and "x < 16"
  shows "\<bar>toDouble x - x\<bar> \<le> pow2 (- 50)"
proof (cases "x = 0")
  case True
  then show ?thesis using pow2_pos [of "- 50"] by (simp add: toDouble_def)
next
  case False
  with assms have p: "0 < x" by simp
  define q where "q = max (binade \<bar>x\<bar> - 52) (- 1074)"
  define r :: rat where "r = of_int (roundEven (x / pow2 q))"
  have "binade x \<le> int 4 - 1" using assms(2) by (intro binade_le) simp_all
  then have "q \<le> - 49" using p by (simp add: q_def)
  then have q49: "pow2 q \<le> pow2 (- 49)" by (rule pow2_mono)
  have d: "toDouble x = r * pow2 q"
    using p by (simp add: toDouble_def Let_def q_def r_def)
  have "toDouble x - x = (r - x / pow2 q) * pow2 q"
    using pow2_pos [of q] by (simp add: d field_simps)
  then have "\<bar>toDouble x - x\<bar> = \<bar>r - x / pow2 q\<bar> * pow2 q"
    using pow2_pos [of q] by (simp add: abs_mult)
  also have "\<dots> \<le> 1 / 2 * pow2 q"
    using roundEven_error [of "x / pow2 q"] pow2_pos [of q]
    by (intro mult_right_mono) (simp_all add: r_def)
  also have "\<dots> \<le> 1 / 2 * pow2 (- 49)"
    using q49 by simp
  also have "\<dots> = pow2 (- 50)"
    by (simp add: pow2_def)
  finally show ?thesis .
qed

lemma pow2_m50: "pow2 (- 50) = 1 / 2 ^ 50"
  by (simp add: pow2_def)

lemma toDouble_upper:
  assumes "0 \<le> y" and "y < 16"
  shows "toDouble y \<le> y + 1 / 2 ^ 50"
proof -
  have "\<bar>toDouble y - y\<bar> \<le> pow2 (- 50)" using assms by (rule toDouble_error)
  then have "\<bar>toDouble y - y\<bar> \<le> 1 / 2 ^ 50" by (simp only: pow2_m50)
  then show ?thesis by linarith
qed

subsection \<open>Resolving ids and judging the order\<close>

lemma isCorrect3: "isCorrect [a, b, c] = (a \<le> b \<and> b \<le> c)"
  by (simp add: isCorrect_def arrayAt_def jsLe_def)

lemma orZero_id: "orZero x = x"
  by (simp add: orZero_def)

lemma find_ident_distinct:
  "distinct (map ident eqs) \<Longrightarrow> e \<in> set eqs \<Longrightarrow> find (\<lambda>x. ident x = ident e) eqs = Some e"
  by (induction eqs) (auto simp: image_iff)

lemma find_ident_None: "(find (\<lambda>x. ident x = i) eqs = None) = (i \<notin> ident ` set eqs)"
  by (auto simp: find_None_iff)

lemma resolveValue_member:
  "distinct (map ident eqs) \<Longrightarrow> e \<in> set eqs \<Longrightarrow> resolveValue eqs (ident e) = val e"
  by (simp add: resolveValue_def find_ident_distinct orZero_id)

lemma resolveValue_missing: "i \<notin> ident ` set eqs \<Longrightarrow> resolveValue eqs i = 0"
  using find_ident_None [of i eqs] by (simp add: resolveValue_def)

lemma distinct_ident_mset:
  assumes "mset eqs' = mset eqs" and "distinct (map ident eqs)"
  shows "distinct (map ident eqs')"
proof -
  have "mset (map ident eqs') = mset (map ident eqs)"
    using assms(1) by simp
  then show ?thesis
    using assms(2) by (metis mset_eq_imp_distinct_iff)
qed

text \<open>With unique ids the array order of the batch does not matter to the lookup.\<close>

lemma resolveValue_display_order:
  assumes d: "distinct (map ident eqs)" and p: "mset eqs' = mset eqs"
  shows "resolveValue eqs' i = resolveValue eqs i"
proof (cases "i \<in> ident ` set eqs")
  case True
  then obtain e where e: "e \<in> set eqs" "i = ident e" by auto
  have s: "set eqs' = set eqs" using p by (rule mset_eq_setD)
  have "resolveValue eqs' (ident e) = val e"
    using distinct_ident_mset [OF p d] e(1) s by (simp add: resolveValue_member)
  then show ?thesis using e d by (simp add: resolveValue_member)
next
  case False
  moreover have "set eqs' = set eqs" using p by (rule mset_eq_setD)
  ultimately show ?thesis by (simp add: resolveValue_missing)
qed

lemma length3E:
  assumes "length xs = 3"
  obtains a b c where "xs = [a, b, c]"
  using assms by (auto simp: numeral_3_eq_3 length_Suc_conv)

lemma selectedValues3:
  assumes "length selected = 3"
  shows "selectedValues eqs selected =
     [resolveValue eqs (selected ! 0), resolveValue eqs (selected ! 1),
      resolveValue eqs (selected ! 2)]"
proof -
  obtain a b c where "selected = [a, b, c]"
    using assms by (rule length3E)
  then show ?thesis by (simp add: selectedValues_def)
qed

lemma feedback_validateSelection:
  "feedbackStatus (validateSelection s selected) =
     (if isCorrect (selectedValues (equations s) selected) then Correct else Wrong)"
  by (simp add: validateSelection_def)

subsection \<open>What each handler changes\<close>

lemma validateSelection_wrong:
  "\<not> isCorrect (selectedValues (equations s) selected) \<Longrightarrow>
   validateSelection s selected =
     s\<lparr>feedbackStatus := Wrong, wrongAttempts := wrongAttempts s + 1,
       pending := pending s @ [(500, ResetFeedback)]\<rparr>"
  by (simp add: validateSelection_def)

lemma fire_last:
  "pending t = ps @ [(d, a)] \<Longrightarrow> fire gen t (length ps) = runDelayed gen a (t\<lparr>pending := ps\<rparr>)"
  by (simp add: fire_def)

lemma score_validateSelection:
  "score (validateSelection s selected) =
     (if isCorrect (selectedValues (equations s) selected)
      then score s + (level s * 10 + \<lfloor>timeLeft s\<rfloor>) else score s)"
  by (simp add: validateSelection_def)

lemma score_timerEffect: "score (timerEffect old new) = score new"
  by (simp add: timerEffect_def)

lemma score_tick: "score (tick s) = score s"
  by (simp add: tick_def handleTimeUp_def)

lemma score_runDelayed: "score (runDelayed gen d s) = score s"
  by (cases d) (simp_all add: runDelayed_def score_timerEffect startLevel_def)

lemma score_fire: "score (fire gen s n) = score s"
  by (simp add: fire_def score_runDelayed)

lemma handleBubbleClick_accepted:
  assumes "\<not> gameOver s" "feedbackStatus s = Neutral" "\<not> isTourActive s"
  shows "handleBubbleClick s i =
     (if i \<in> set (selectedIds s)
      then s\<lparr>selectedIds := filter (\<lambda>x. x \<noteq> i) (selectedIds s)\<rparr>
      else if length (selectedIds s) = 2
      then validateSelection (s\<lparr>selectedIds := selectedIds s @ [i]\<rparr>) (selectedIds s @ [i])
      else s\<lparr>selectedIds := selectedIds s @ [i]\<rparr>)"
  using assms by (simp add: handleBubbleClick_def Let_def)

lemma handleBubbleClick_ignored:
  "gameOver s \<or> feedbackStatus s \<noteq> Neutral \<or> isTourActive s \<Longrightarrow> handleBubbleClick s i = s"
  by (auto simp: handleBubbleClick_def)

lemma tick_expired:
  "timeLeft s \<le> doubleTenth \<Longrightarrow>
   tick s = s\<lparr>timerOn := False, wrongAttempts := wrongAttempts s + 1, feedbackStatus := Wrong,
              pending := pending s @ [(1000, RestartLevel (level s))], timeLeft := 0\<rparr>"
  by (simp add: tick_def handleTimeUp_def)

lemma tick_running:
  "\<not> timeLeft s \<le> doubleTenth \<Longrightarrow> tick s = s\<lparr>timeLeft := toDouble (timeLeft s - doubleTenth)\<rparr>"
  by (simp add: tick_def)

lemma tick_step_error:
  assumes "timeLeft s \<le> 15" and "\<not> timeLeft s \<le> doubleTenth"
  shows "\<bar>timeLeft (tick s) - (timeLeft s - 1 / 10)\<bar> \<le> 1 / 2 ^ 49"
proof -
  let ?y = "timeLeft s - doubleTenth"
  have "0 \<le> ?y" "?y < 16"
    using assms by (simp_all add: doubleTenth_eq)
  then have "\<bar>toDouble ?y - ?y\<bar> \<le> pow2 (- 50)" by (rule toDouble_error)
  then have e: "\<bar>toDouble ?y - ?y\<bar> \<le> 1 / 2 ^ 50" by (simp only: pow2_m50)
  have h: "(1 :: rat) / 2 ^ 50 + 1 / 2 ^ 50 = 1 / 2 ^ 49" by simp
  have "\<bar>toDouble ?y - (timeLeft s - 1 / 10)\<bar> \<le> \<bar>toDouble ?y - ?y\<bar> + \<bar>doubleTenth - 1 / 10\<bar>"
    by linarith
  also have "\<dots> \<le> 1 / 2 ^ 50 + 1 / 2 ^ 50"
    using e doubleTenth_error by (rule add_mono)
  finally have "\<bar>toDouble ?y - (timeLeft s - 1 / 10)\<bar> \<le> 1 / 2 ^ 49"
    by (simp only: h)
  moreover have "timeLeft (tick s) = toDouble ?y"
    using assms(2) by (simp add: tick_running)
  ultimately show ?thesis by simp
qed

lemma timerEffect_restart:
  "batchNo new \<noteq> batchNo old \<Longrightarrow>
   timerEffect old new =
     new\<lparr>timerOn := (isPlaying new \<and> \<not> gameOver new \<and> \<not> isTourActive new)\<rparr>"
  by (simp add: timerEffect_def timerDeps_def)


lemma runDelayed_AdvanceLevel:
  "runDelayed gen (AdvanceLevel lv) s =
     s\<lparr>level := level s + 1, equations := gen (batchNo s) lv, batchNo := Suc (batchNo s),
       selectedIds := [], timeLeft := 15, feedbackStatus := Neutral,
       timerOn := (isPlaying s \<and> \<not> gameOver s \<and> \<not> isTourActive s)\<rparr>"
  by (simp add: runDelayed_def timerEffect_restart startLevel_def)

lemma handleStopGame_playing:
  "\<not> gameOver s \<Longrightarrow> handleStopGame s = s\<lparr>gameOver := True, timerOn := False\<rparr>"
  by (simp add: handleStopGame_def timerEffect_def timerDeps_def)

lemma gameOver_timerEffect: "gameOver (timerEffect old new) = gameOver new"
  by (simp add: timerEffect_def)

lemma gameOver_runDelayed: "gameOver (runDelayed gen d s) = gameOver s"
  by (cases d) (simp_all add: runDelayed_def gameOver_timerEffect startLevel_def)

lemma gameOver_fire: "gameOver (fire gen s n) = gameOver s"
  by (simp add: fire_def gameOver_runDelayed)

lemma filter_remove1: "distinct xs \<Longrightarrow> filter (\<lambda>x. x \<noteq> i) xs = remove1 i xs"
  by (induction xs) (auto simp: remove1_idem)

subsection \<open>Invariants of runs\<close>

lemma timeLeft_timerEffect: "timeLeft (timerEffect old new) = timeLeft new"
  by (simp add: timerEffect_def)

lemma timeLeft_startLevel: "timeLeft (startLevel gen lv s) = 15"
  by (simp add: startLevel_def)

lemma timeLeft_validateSelection: "timeLeft (validateSelection s selected) = timeLeft s"
  by (simp add: validateSelection_def)

lemma timeLeft_handleBubbleClick: "timeLeft (handleBubbleClick s i) = timeLeft s"
  by (simp add: handleBubbleClick_def Let_def timeLeft_validateSelection)

lemma timeLeft_startGame: "timeLeft (startGame gen s) = 15"
  by (simp add: startGame_def Let_def timeLeft_timerEffect timeLeft_startLevel)

lemma timeInRange_tick:
  assumes "timeInRange s"
  shows "timeInRange (tick s)"
proof (cases "timeLeft s \<le> doubleTenth")
  case True
  then show ?thesis by (simp add: tick_expired timeInRange_def)
next
  case False
  let ?y = "timeLeft s - doubleTenth"
  have y: "0 \<le> ?y" "?y < 16"
    using assms False by (simp_all add: timeInRange_def doubleTenth_eq)
  have "toDouble ?y \<le> ?y + 1 / 2 ^ 50" using y by (rule toDouble_upper)
  moreover have "?y + 1 / 2 ^ 50 \<le> 15"
    using assms by (simp add: timeInRange_def doubleTenth_eq)
  ultimately have "toDouble ?y \<le> 15" by (rule order_trans)
  moreover have "0 \<le> toDouble ?y" using y(1) by (rule toDouble_nonneg)
  ultimately show ?thesis
    using False \<open>toDouble ?y \<le> 15\<close> by (simp add: tick_running timeInRange_def)
qed

lemma timeInRange_runDelayed: "timeInRange s \<Longrightarrow> timeInRange (runDelayed gen d s)"
  by (cases d)
     (simp_all add: timeInRange_def runDelayed_def timeLeft_timerEffect timeLeft_startLevel)

lemma timeInRange_fire: "timeInRange s \<Longrightarrow> timeInRange (fire gen s n)"
  unfolding fire_def by (rule timeInRange_runDelayed) (simp add: timeInRange_def)

lemma timeInRange_step:
  assumes "step gen s e = Some s'" and "timeInRange s"
  shows "timeInRange s'"
proof (cases e)
  case StartGame
  with assms show ?thesis by (auto simp: timeInRange_def timeLeft_startGame)
next
  case StopGame
  with assms show ?thesis by (auto simp: timeInRange_def handleStopGame_def timeLeft_timerEffect)
next
  case (BubbleClick i)
  with assms show ?thesis by (auto simp: timeInRange_def timeLeft_handleBubbleClick)
next
  case Tick
  with assms show ?thesis by (auto simp: timeInRange_tick split: if_splits)
next
  case (Fire n)
  with assms show ?thesis by (auto simp: timeInRange_fire split: if_splits)
next
  case EndTour
  with assms show ?thesis by (auto simp: timeInRange_def endTour_def timeLeft_timerEffect)
next
  case ResetTour
  with assms show ?thesis by (auto simp: timeInRange_def resetTour_def timeLeft_timerEffect)
qed

lemma timeInRange_run:
  "run gen s es = Some s' \<Longrightarrow> timeInRange s \<Longrightarrow> timeInRange s'"
proof (induction es arbitrary: s)
  case Nil
  then show ?case by simp
next
  case (Cons e es)
  then obtain t where t: "step gen s e = Some t" and r: "run gen t es = Some s'"
    by (auto split: option.splits)
  from t Cons.prems(2) have "timeInRange t" by (rule timeInRange_step)
  with r show ?case by (rule Cons.IH)
qed







text \<open>Runs one after the other, and a run of ticks along a list of countdown values.\<close>

lemma run_append:
  "run gen s (es @ fs) = (case run gen s es of None \<Rightarrow> None | Some t \<Rightarrow> run gen t fs)"
  by (induction es arbitrary: s) (auto split: option.splits)


lemma run_ticks:
  "decrements (a # vs) \<Longrightarrow> timerOn s \<Longrightarrow> timeLeft s = a \<Longrightarrow>
   run gen s (replicate (length vs) Tick) = Some (s\<lparr>timeLeft := last (a # vs)\<rparr>)"
proof (induction vs arbitrary: a s)
  case Nil
  then show ?case by simp
next
  case (Cons b vs)
  from Cons.prems have a: "\<not> timeLeft s \<le> doubleTenth"
    and b: "toDouble (timeLeft s - doubleTenth) = b" and d: "decrements (b # vs)"
    by simp_all
  from a b have t: "tick s = s\<lparr>timeLeft := b\<rparr>" by (simp add: tick_running)
  have "run gen (s\<lparr>timeLeft := b\<rparr>) (replicate (length vs) Tick) =
          Some (s\<lparr>timeLeft := b\<rparr>\<lparr>timeLeft := last (b # vs)\<rparr>)"
    using d Cons.prems(2) by (intro Cons.IH) simp_all
  with t Cons.prems(2) show ?case by simp
qed

lemma decrements_countdownValues: "decrements countdownValues"
  by (simp add: countdownValues_def doubleTenth_eq double_eval)

lemma length_countdownValues: "length countdownValues = 151"
  by (simp add: countdownValues_def)

lemma decrements_tl: "decrements (a # r) \<Longrightarrow> decrements r"
  by (cases r) simp_all

lemma decrements_drop: "decrements xs \<Longrightarrow> decrements (drop n xs)"
proof (induction n arbitrary: xs)
  case 0
  then show ?case by simp
next
  case (Suc n)
  show ?case
  proof (cases xs)
    case Nil
    then show ?thesis by simp
  next
    case (Cons a r)
    with Suc.prems have "decrements r" by (simp add: decrements_tl)
    then have "decrements (drop n r)" by (rule Suc.IH)
    with Cons show ?thesis by simp
  qed
qed

lemma decrements_take: "decrements xs \<Longrightarrow> decrements (take n xs)"
proof (induction xs arbitrary: n rule: decrements.induct)
  case (1 a b r)
  show ?case
  proof (cases n)
    case 0
    then show ?thesis by simp
  next
    case (Suc m)
    show ?thesis
    proof (cases m)
      case 0
      with Suc show ?thesis by simp
    next
      case (Suc k)
      from "1.prems" have "decrements (b # r)" by simp
      then have "decrements (take m (b # r))" by (rule "1.IH")
      with "1.prems" Suc \<open>n = Suc m\<close> show ?thesis by simp
    qed
  qed
qed (simp_all add: take_Cons split: nat.split)

lemma countdownValues_late:
  "drop 147 countdownValues =
     [2702159776422627 / 9007199254740992, 7205759403794111 / 36028797018963968,
      1801439850948857 / 18014398509481984, 1317 / 36028797018963968]"
  by (simp add: countdownValues_def)

lemma countdownValues_first: "take 4 countdownValues =
     [15, 8387954305977549 / 562949953421312, 4165829655317709 / 281474976710656,
      8275364315293287 / 562949953421312]"
  by (simp add: countdownValues_def)

lemma countdownValues_147: "countdownValues ! 147 = 2702159776422627 / 9007199254740992"
proof -
  have "countdownValues ! 147 = hd (drop 147 countdownValues)"
    by (rule hd_drop_conv_nth [symmetric]) (simp add: length_countdownValues)
  then show ?thesis by (simp add: countdownValues_late)
qed

text \<open>From a state with 15 seconds left and the interval live, 147 ticks leave
  0.30000000000003657 seconds and 150 ticks leave 3.655409308578328e-14 seconds.\<close>

lemma run_ticks_147:
  assumes "timerOn s" and "timeLeft s = 15"
  shows "run gen s (replicate 147 Tick) =
           Some (s\<lparr>timeLeft := 2702159776422627 / 9007199254740992\<rparr>)"
proof -
  have c: "take 148 countdownValues = 15 # take 147 (tl countdownValues)"
    by (simp add: countdownValues_def)
  have "decrements (take 148 countdownValues)"
    using decrements_countdownValues by (rule decrements_take)
  then have d: "decrements (15 # take 147 (tl countdownValues))" by (simp only: c)
  have l: "length (take 147 (tl countdownValues)) = 147"
    by (simp add: length_countdownValues)
  have "take (Suc 147) countdownValues = take 147 countdownValues @ [countdownValues ! 147]"
    by (rule take_Suc_conv_app_nth) (simp add: length_countdownValues)
  then have "last (take (Suc 147) countdownValues) = countdownValues ! 147"
    by simp
  moreover have "Suc 147 = 148" by simp
  ultimately have "last (take 148 countdownValues) = countdownValues ! 147"
    by simp
  then have e: "last (15 # take 147 (tl countdownValues)) = 2702159776422627 / 9007199254740992"
    by (simp only: c countdownValues_147)
  from run_ticks [OF d assms(1) assms(2), of gen] show ?thesis
    by (simp only: l e)
qed

lemma run_ticks_late:
  assumes "timerOn s" and "timeLeft s = 2702159776422627 / 9007199254740992"
  shows "run gen s (replicate 3 Tick) = Some (s\<lparr>timeLeft := 1317 / 36028797018963968\<rparr>)"
proof -
  have "decrements (drop 147 countdownValues)"
    using decrements_countdownValues by (rule decrements_drop)
  then have d: "decrements (2702159776422627 / 9007199254740992 #
      [7205759403794111 / 36028797018963968, 1801439850948857 / 18014398509481984,
       1317 / 36028797018963968])"
    by (simp only: countdownValues_late)
  have l: "length [7205759403794111 / 36028797018963968 :: rat,
      1801439850948857 / 18014398509481984, 1317 / 36028797018963968] = 3"
    by simp
  have e: "last (2702159776422627 / 9007199254740992 #
      [7205759403794111 / 36028797018963968 :: rat, 1801439850948857 / 18014398509481984,
       1317 / 36028797018963968]) = 1317 / 36028797018963968"
    by simp
  from run_ticks [OF d assms(1) assms(2), of gen] show ?thesis
    by (simp only: l e)
qed

lemma run_ticks_150:
  assumes "timerOn s" and "timeLeft s = 15"
  shows "run gen s (replicate 150 Tick) = Some (s\<lparr>timeLeft := 1317 / 36028797018963968\<rparr>)"
proof -
  have "run gen s (replicate 147 Tick @ replicate 3 Tick) =
          run gen (s\<lparr>timeLeft := 2702159776422627 / 9007199254740992\<rparr>) (replicate 3 Tick)"
    using assms by (simp add: run_append run_ticks_147)
  also have "\<dots> = Some (s\<lparr>timeLeft := 2702159776422627 / 9007199254740992\<rparr>
                          \<lparr>timeLeft := 1317 / 36028797018963968\<rparr>)"
    using assms(1) by (intro run_ticks_late) simp_all
  also have "replicate 147 Tick @ replicate 3 Tick = replicate 150 Tick"
    by (simp add: replicate_add [symmetric])
  finally show ?thesis by simp
qed

lemma selectedIds_timerEffect: "selectedIds (timerEffect old new) = selectedIds new"
  by (simp add: timerEffect_def)

lemma selectedIds_validateSelection: "selectedIds (validateSelection s selected) = selectedIds s"
  by (simp add: validateSelection_def)

lemma distinct_handleBubbleClick:
  "distinct (selectedIds s) \<Longrightarrow> distinct (selectedIds (handleBubbleClick s i))"
  by (simp add: handleBubbleClick_def Let_def selectedIds_validateSelection)

lemma selectedIds_startGame: "selectedIds (startGame gen s) = []"
  by (simp add: startGame_def Let_def selectedIds_timerEffect startLevel_def)

lemma distinct_runDelayed:
  "distinct (selectedIds s) \<Longrightarrow> distinct (selectedIds (runDelayed gen d s))"
  by (cases d) (simp_all add: runDelayed_def selectedIds_timerEffect startLevel_def)

lemma distinct_fire: "distinct (selectedIds s) \<Longrightarrow> distinct (selectedIds (fire gen s n))"
  by (simp add: fire_def distinct_runDelayed)

lemma selectedIds_tick: "selectedIds (tick s) = selectedIds s"
  by (simp add: tick_def handleTimeUp_def)

lemma distinct_step:
  assumes "step gen s e = Some s'" and "distinct (selectedIds s)"
  shows "distinct (selectedIds s')"
proof (cases e)
  case StartGame
  with assms show ?thesis by (auto simp: selectedIds_startGame)
next
  case StopGame
  with assms show ?thesis by (auto simp: handleStopGame_def selectedIds_timerEffect)
next
  case (BubbleClick i)
  with assms show ?thesis by (auto simp: distinct_handleBubbleClick)
next
  case Tick
  with assms show ?thesis by (auto simp: selectedIds_tick split: if_splits)
next
  case (Fire n)
  with assms show ?thesis by (auto simp: distinct_fire split: if_splits)
next
  case EndTour
  with assms show ?thesis by (auto simp: endTour_def selectedIds_timerEffect)
next
  case ResetTour
  with assms show ?thesis by (auto simp: resetTour_def selectedIds_timerEffect)
qed

lemma distinct_run:
  "run gen s es = Some s' \<Longrightarrow> distinct (selectedIds s) \<Longrightarrow> distinct (selectedIds s')"
proof (induction es arbitrary: s)
  case Nil
  then show ?case by simp
next
  case (Cons e es)
  then obtain t where t: "step gen s e = Some t" and r: "run gen t es = Some s'"
    by (auto split: option.splits)
  from t Cons.prems(2) have "distinct (selectedIds t)" by (rule distinct_step)
  with r show ?case by (rule Cons.IH)
qed

lemma timerSound_timerEffect:
  "timerSound old \<Longrightarrow> timerOn new = timerOn old \<Longrightarrow> timerSound (timerEffect old new)"
  by (auto simp: timerSound_def timerEffect_def timerDeps_def split: if_splits)

lemma timerSound_startGame: "timerSound s \<Longrightarrow> timerSound (startGame gen s)"
  unfolding startGame_def Let_def
  by (rule timerSound_timerEffect) (simp_all add: startLevel_def)

lemma timerSound_handleStopGame: "timerSound s \<Longrightarrow> timerSound (handleStopGame s)"
  unfolding handleStopGame_def by (rule timerSound_timerEffect) simp_all

lemma timerSound_endTour: "timerSound s \<Longrightarrow> timerSound (endTour s)"
  unfolding endTour_def by (rule timerSound_timerEffect) simp_all

lemma timerSound_resetTour: "timerSound s \<Longrightarrow> timerSound (resetTour s)"
  unfolding resetTour_def by (rule timerSound_timerEffect) simp_all

lemma timerSound_validateSelection: "timerSound s \<Longrightarrow> timerSound (validateSelection s selected)"
  by (simp add: timerSound_def validateSelection_def)

lemma timerSound_handleBubbleClick:
  assumes "timerSound s"
  shows "timerSound (handleBubbleClick s i)"
proof (cases "gameOver s \<or> feedbackStatus s \<noteq> Neutral \<or> isTourActive s")
  case True
  then have "handleBubbleClick s i = s" by (rule handleBubbleClick_ignored)
  with assms show ?thesis by simp
next
  case False
  have u: "timerSound (s\<lparr>selectedIds := xs\<rparr>)" for xs
    using assms by (simp add: timerSound_def)
  from False have "handleBubbleClick s i =
     (if i \<in> set (selectedIds s)
      then s\<lparr>selectedIds := filter (\<lambda>x. x \<noteq> i) (selectedIds s)\<rparr>
      else if length (selectedIds s) = 2
      then validateSelection (s\<lparr>selectedIds := selectedIds s @ [i]\<rparr>) (selectedIds s @ [i])
      else s\<lparr>selectedIds := selectedIds s @ [i]\<rparr>)"
    by (intro handleBubbleClick_accepted) simp_all
  then show ?thesis
    by (simp add: u timerSound_validateSelection)
qed

lemma timerSound_tick: "timerSound s \<Longrightarrow> timerSound (tick s)"
  by (simp add: timerSound_def tick_def handleTimeUp_def)

lemma timerSound_runDelayed:
  assumes "timerSound s"
  shows "timerSound (runDelayed gen d s)"
proof (cases d)
  case (AdvanceLevel lv)
  have "timerSound (timerEffect s (startLevel gen lv (s\<lparr>level := level s + 1\<rparr>)))"
    using assms by (rule timerSound_timerEffect) (simp add: startLevel_def)
  with AdvanceLevel show ?thesis by (simp add: runDelayed_def)
next
  case (RestartLevel lv)
  have "timerSound (timerEffect s (startLevel gen lv s))"
    using assms by (rule timerSound_timerEffect) (simp add: startLevel_def)
  with RestartLevel show ?thesis by (simp add: runDelayed_def)
next
  case ResetFeedback
  with assms show ?thesis by (simp add: runDelayed_def timerSound_def)
qed

lemma timerSound_fire:
  assumes "timerSound s"
  shows "timerSound (fire gen s n)"
proof -
  have "timerSound (s\<lparr>pending := take n (pending s) @ drop (Suc n) (pending s)\<rparr>)"
    using assms by (simp add: timerSound_def)
  then show ?thesis
    unfolding fire_def by (rule timerSound_runDelayed)
qed

lemma timerSound_step:
  assumes "step gen s e = Some s'" and "timerSound s"
  shows "timerSound s'"
proof (cases e)
  case StartGame
  with assms show ?thesis by (auto simp: timerSound_startGame)
next
  case StopGame
  with assms show ?thesis by (auto simp: timerSound_handleStopGame)
next
  case (BubbleClick i)
  with assms show ?thesis by (auto simp: timerSound_handleBubbleClick)
next
  case Tick
  with assms show ?thesis by (auto simp: timerSound_tick split: if_splits)
next
  case (Fire n)
  with assms show ?thesis by (auto simp: timerSound_fire split: if_splits)
next
  case EndTour
  with assms show ?thesis by (auto simp: timerSound_endTour)
next
  case ResetTour
  with assms show ?thesis by (auto simp: timerSound_resetTour)
qed

lemma timerSound_run:
  "run gen s es = Some s' \<Longrightarrow> timerSound s \<Longrightarrow> timerSound s'"
proof (induction es arbitrary: s)
  case Nil
  then show ?case by simp
next
  case (Cons e es)
  then obtain t where t: "step gen s e = Some t" and r: "run gen t es = Some s'"
    by (auto split: option.splits)
  from t Cons.prems(2) have "timerSound t" by (rule timerSound_step)
  with r show ?case by (rule Cons.IH)
qed

text \<open>Without the tour: from an initial state with \<open>hasSeenTour\<close> the tour is never
  active unless it is reset, so the tests of \<open>isTourActive\<close> never fire.\<close>

lemma tourOff_timerEffect: "tourOff (timerEffect old new) = tourOff new"
  by (simp add: tourOff_def timerEffect_def)

lemma tourOff_startGame: "tourOff s \<Longrightarrow> tourOff (startGame gen s)"
  by (simp add: startGame_def Let_def tourOff_timerEffect) (simp add: tourOff_def startLevel_def)

lemma tourOff_validateSelection: "tourOff (validateSelection s selected) = tourOff s"
  by (simp add: tourOff_def validateSelection_def)

lemma tourOff_handleBubbleClick: "tourOff s \<Longrightarrow> tourOff (handleBubbleClick s i)"
  by (simp add: handleBubbleClick_def Let_def tourOff_validateSelection) (simp add: tourOff_def)

lemma tourOff_tick: "tourOff (tick s) = tourOff s"
  by (simp add: tourOff_def tick_def handleTimeUp_def)

lemma tourOff_runDelayed: "tourOff (runDelayed gen d s) = tourOff s"
  by (cases d) (simp_all add: runDelayed_def tourOff_timerEffect, simp_all add: tourOff_def startLevel_def)

lemma tourOff_fire: "tourOff (fire gen s n) = tourOff s"
  by (simp add: fire_def tourOff_runDelayed) (simp add: tourOff_def)

lemma no_tour_step:
  assumes "step gen s e = Some s'" and "e \<noteq> ResetTour" and "tourOff s"
  shows "tourOff s'"
proof (cases e)
  case StartGame
  with assms show ?thesis by (auto simp: tourOff_startGame)
next
  case StopGame
  with assms show ?thesis
    by (auto simp: handleStopGame_def tourOff_timerEffect) (simp add: tourOff_def)
next
  case (BubbleClick i)
  with assms show ?thesis by (auto simp: tourOff_handleBubbleClick)
next
  case Tick
  with assms show ?thesis by (auto simp: tourOff_tick split: if_splits)
next
  case (Fire n)
  with assms show ?thesis by (auto simp: tourOff_fire split: if_splits)
next
  case EndTour
  with assms show ?thesis
    by (auto simp: endTour_def tourOff_timerEffect) (simp add: tourOff_def)
next
  case ResetTour
  with assms show ?thesis by simp
qed

lemma no_tour_run:
  "run gen s es = Some s' \<Longrightarrow> ResetTour \<notin> set es \<Longrightarrow> tourOff s \<Longrightarrow> tourOff s'"
proof (induction es arbitrary: s)
  case Nil
  then show ?case by simp
next
  case (Cons e es)
  then obtain t where t: "step gen s e = Some t" and r: "run gen t es = Some s'"
    by (auto split: option.splits)
  from Cons.prems(2) have e: "e \<noteq> ResetTour" and n: "ResetTour \<notin> set es" by auto
  from t e Cons.prems(3) have "tourOff t" by (rule no_tour_step)
  with r n show ?case by (rule Cons.IH)
qed

subsection \<open>The worked states\<close>

lemma demoState_eq:
  "demoState =
     \<lparr> isPlaying = True, level = 1, score = 0, timeLeft = 15, equations = demoBatch,
       selectedIds = [], gameOver = False, wrongAttempts = 0, feedbackStatus = Neutral,
       isTourActive = False, hasSeenTour = True, timerOn = True, batchNo = 1,
       pending = [] \<rparr>"
  by (simp add: demoState_def startGame_def initState_def startLevel_def timerEffect_def
      timerDeps_def demoGen_def)

lemma tourState_eq:
  "tourState =
     \<lparr> isPlaying = True, level = 1, score = 0, timeLeft = 15, equations = demoBatch,
       selectedIds = [], gameOver = False, wrongAttempts = 0, feedbackStatus = Neutral,
       isTourActive = True, hasSeenTour = False, timerOn = False, batchNo = 1,
       pending = [] \<rparr>"
  by (simp add: tourState_def startGame_def initState_def startLevel_def timerEffect_def
      timerDeps_def demoGen_def)

lemma resolve_demo:
  "resolveValue demoBatch ''A'' = 2" "resolveValue demoBatch ''B'' = 5"
  "resolveValue demoBatch ''C'' = 9" "resolveValue demoBatch ''Z'' = 0"
  by (simp_all add: resolveValue_def demoBatch_def orZero_def)

lemma wonState_eq:
  "wonState =
     \<lparr> isPlaying = True, level = 1, score = 25, timeLeft = 15, equations = demoBatch,
       selectedIds = [''A'', ''B'', ''C''], gameOver = False, wrongAttempts = 0,
       feedbackStatus = Correct, isTourActive = False, hasSeenTour = True, timerOn = True,
       batchNo = 1, pending = [(1000, AdvanceLevel 2)] \<rparr>"
  by (simp add: wonState_def demoState_eq handleBubbleClick_def validateSelection_def
      selectedValues_def resolve_demo isCorrect3)

lemma run_wonState:
  "run demoGen (initState True)
     [StartGame, BubbleClick ''A'', BubbleClick ''B'', BubbleClick ''C''] = Some wonState"
  by (simp add: wonState_def demoState_def)

subsection \<open>Display texts read back\<close>

lemma digitVal_digitChar: "d < 10 \<Longrightarrow> digitVal (digitChar d) = Some d"
  by (simp add: digitVal_def digitChar_def)

lemma digitChar_not_space: "d < 10 \<Longrightarrow> digitChar d \<noteq> CHR '' ''"
proof
  assume d: "d < 10" and e: "digitChar d = CHR '' ''"
  from e have "(of_char (digitChar d) :: nat) = of_char (CHR '' '')" by simp
  with d show False by (simp add: digitChar_def)
qed

lemma showNat_nonempty: "showNat n \<noteq> []"
  by (induction n rule: showNat.induct) (subst showNat.simps, simp)

lemma showNat_no_space: "CHR '' '' \<notin> set (showNat n)"
proof (induction n rule: showNat.induct)
  case (1 n)
  show ?case
  proof (cases "n < 10")
    case True
    then show ?thesis
      using digitChar_not_space [of n] by (subst showNat.simps) auto
  next
    case False
    then have "CHR '' '' \<notin> set (showNat (n div 10))" by (rule "1.IH")
    moreover have "digitChar (n mod 10) \<noteq> CHR '' ''"
      by (rule digitChar_not_space) simp
    ultimately show ?thesis
      using False by (subst showNat.simps) auto
  qed
qed

lemma readDigits_snoc:
  "readDigits acc (cs @ [c]) =
     (case readDigits acc cs of None \<Rightarrow> None
      | Some v \<Rightarrow> (case digitVal c of None \<Rightarrow> None | Some d \<Rightarrow> Some (10 * v + d)))"
  by (induction cs arbitrary: acc) (auto split: option.splits)

lemma readDigits_showNat: "readDigits 0 (showNat n) = Some n"
proof (induction n rule: showNat.induct)
  case (1 n)
  show ?case
  proof (cases "n < 10")
    case True
    then show ?thesis
      by (subst showNat.simps) (simp add: digitVal_digitChar)
  next
    case False
    then have "readDigits 0 (showNat (n div 10)) = Some (n div 10)" by (rule "1.IH")
    moreover have "digitVal (digitChar (n mod 10)) = Some (n mod 10)"
      by (rule digitVal_digitChar) simp
    ultimately have "readDigits 0 (showNat (n div 10) @ [digitChar (n mod 10)]) = Some n"
      by (simp add: readDigits_snoc)
    with False show ?thesis
      by (subst showNat.simps) simp
  qed
qed

lemma readNat_showNat: "readNat (showNat n) = Some n"
  by (simp add: readNat_def showNat_nonempty readDigits_showNat)

lemma readOp_opSymbol: "readOp (opSymbol op) = Some op"
  by (cases op) (simp_all add: readOp_def)

lemma opSymbol_no_space: "CHR '' '' \<notin> set (opSymbol op)"
  by (cases op) simp_all

lemma splitSpaces_word: "CHR '' '' \<notin> set w \<Longrightarrow> splitSpaces w = [w]"
  by (induction w) auto

lemma splitSpaces_first:
  "CHR '' '' \<notin> set w \<Longrightarrow> splitSpaces (w @ CHR '' '' # rest) = w # splitSpaces rest"
  by (induction w) auto

lemma splitSpaces_render: "splitSpaces (render a op b) = [showNat a, opSymbol op, showNat b]"
  by (simp add: render_def splitSpaces_first splitSpaces_word showNat_no_space
      opSymbol_no_space)

lemma evalExpression_render:
  "evalExpression (render a op b) = Some (of_int (applyOp op (int a) (int b)))"
  by (simp add: evalExpression_def splitSpaces_render readNat_showNat readOp_opSymbol
     )

lemma evalExpression_makeEquation:
  "evalExpression (expression (makeEquation rnd lv k)) = Some (val (makeEquation rnd lv k))"
  by (simp add: makeEquation_def Let_def evalExpression_render)

lemma showNat_digit: "n < 10 \<Longrightarrow> showNat n = [digitChar n]"
  by (subst showNat.simps) simp

lemma digitChar_inj: "a < 10 \<Longrightarrow> b < 10 \<Longrightarrow> digitChar a = digitChar b \<Longrightarrow> a = b"
proof -
  assume a: "a < 10" and b: "b < 10" and e: "digitChar a = digitChar b"
  from e have "digitVal (digitChar a) = digitVal (digitChar b)" by simp
  with a b show "a = b" by (simp add: digitVal_digitChar)
qed

lemma ident_makeEquation: "k < 10 \<Longrightarrow> ident (makeEquation rnd lv k) = ''eq'' @ [digitChar k]"
  by (simp add: makeEquation_def Let_def showNat_digit)

lemma distinct_ident_batch:
  "distinct (map ident (map (makeEquation rnd lv) [0, 1, 2]))"
proof -
  have "digitChar 0 \<noteq> digitChar 1" "digitChar 0 \<noteq> digitChar 2" "digitChar 1 \<noteq> digitChar 2"
    using digitChar_inj [of 0 1] digitChar_inj [of 0 2] digitChar_inj [of 1 2] by auto
  then show ?thesis by (simp add: ident_makeEquation)
qed



section \<open>The claims\<close>

text \<open>
  C1. For every batch and every selection of exactly three ids, validation answers
  \<open>correct\<close> exactly when the values the three ids resolve to are in non-decreasing
  order in the order of selection (ties allowed). The values are those of the equations
  carrying the ids, and for a batch with unique ids the verdict is the same for every
  display order of the batch.
\<close>

theorem C1_selection_order:
  assumes "length selected = 3"
  shows "((feedbackStatus (validateSelection s selected) = Correct) =
           (resolveValue (equations s) (selected ! 0) \<le> resolveValue (equations s) (selected ! 1) \<and>
            resolveValue (equations s) (selected ! 1) \<le> resolveValue (equations s) (selected ! 2)))
       \<and> (distinct (map ident (equations s)) \<longrightarrow>
            (\<forall>e \<in> set (equations s). resolveValue (equations s) (ident e) = val e))
       \<and> (distinct (map ident (equations s)) \<longrightarrow> mset eqs' = mset (equations s) \<longrightarrow>
            feedbackStatus (validateSelection (s\<lparr>equations := eqs'\<rparr>) selected) =
            feedbackStatus (validateSelection s selected))"
proof (intro conjI impI ballI)
  show "(feedbackStatus (validateSelection s selected) = Correct) =
           (resolveValue (equations s) (selected ! 0) \<le> resolveValue (equations s) (selected ! 1) \<and>
            resolveValue (equations s) (selected ! 1) \<le> resolveValue (equations s) (selected ! 2))"
    using assms by (simp add: feedback_validateSelection selectedValues3 isCorrect3)
next
  fix e assume "distinct (map ident (equations s))" "e \<in> set (equations s)"
  then show "resolveValue (equations s) (ident e) = val e"
    by (rule resolveValue_member)
next
  assume "distinct (map ident (equations s))" "mset eqs' = mset (equations s)"
  then have "resolveValue eqs' i = resolveValue (equations s) i" for i
    by (rule resolveValue_display_order)
  then have "selectedValues eqs' selected = selectedValues (equations s) selected"
    by (simp add: selectedValues_def)
  then show "feedbackStatus (validateSelection (s\<lparr>equations := eqs'\<rparr>) selected) =
            feedbackStatus (validateSelection s selected)"
    by (simp add: feedback_validateSelection)
qed

text \<open>The batch displayed as B, A, C with values 5, 2, 9: selecting B, A, C claims the
  order 5, 2, 9 and fails, also when the batch is displayed in the reverse order.\<close>

theorem C1_selection_order_witness:
  "length [''B'', ''A'', ''C''] = 3
   \<and> distinct (map ident (equations demoState))
   \<and> mset (rev demoBatch) = mset (equations demoState)
   \<and> resolveValue (equations demoState) ''B'' = 5
   \<and> resolveValue (equations demoState) ''A'' = 2
   \<and> resolveValue (equations demoState) ''C'' = 9
   \<and> feedbackStatus (validateSelection demoState [''B'', ''A'', ''C'']) = Wrong
   \<and> feedbackStatus (validateSelection (demoState\<lparr>equations := rev demoBatch\<rparr>) [''B'', ''A'', ''C''])
       = Wrong"
proof -
  have l: "length [''B'', ''A'', ''C''] = 3" by simp
  have d: "distinct (map ident (equations demoState))"
    by (simp add: demoState_eq demoBatch_def)
  have m: "mset (rev demoBatch) = mset (equations demoState)"
    by (simp add: demoState_eq)
  have e: "equations demoState = demoBatch"
    by (simp add: demoState_eq)
  note c = C1_selection_order [OF l, of demoState "rev demoBatch"]
  from c have "feedbackStatus (validateSelection demoState [''B'', ''A'', ''C'']) \<noteq> Correct"
    by (simp add: e resolve_demo)
  then have w: "feedbackStatus (validateSelection demoState [''B'', ''A'', ''C'']) = Wrong"
    by (simp add: feedback_validateSelection split: if_splits)
  from c d m have "feedbackStatus (validateSelection (demoState\<lparr>equations := rev demoBatch\<rparr>) [''B'', ''A'', ''C''])
       = feedbackStatus (validateSelection demoState [''B'', ''A'', ''C''])"
    by blast
  with w l d m show ?thesis by (simp add: e resolve_demo)
qed

text \<open>
  C2. A correct validation at level \<open>L\<close> with \<open>timeLeft = t\<close> adds exactly
  \<open>L * 10 + floor t\<close> to the score, and an incorrect one leaves the score as it is. The
  validation runs inside the click that completes the selection, on the \<open>timeLeft\<close> of
  that moment; a later tick of the countdown or a timeout firing does not touch the score.
\<close>

theorem C2_score_delta:
  "score (validateSelection s selected) =
     (if isCorrect (selectedValues (equations s) selected)
      then score s + (level s * 10 + \<lfloor>timeLeft s\<rfloor>) else score s)
   \<and> score (handleBubbleClick s i) =
     (if \<not> gameOver s \<and> feedbackStatus s = Neutral \<and> \<not> isTourActive s \<and>
         i \<notin> set (selectedIds s) \<and> length (selectedIds s) = 2 \<and>
         isCorrect (selectedValues (equations s) (selectedIds s @ [i]))
      then score s + (level s * 10 + \<lfloor>timeLeft s\<rfloor>) else score s)
   \<and> score (tick (validateSelection s selected)) = score (validateSelection s selected)
   \<and> score (fire gen (validateSelection s selected) n) = score (validateSelection s selected)"
proof (intro conjI)
  show "score (validateSelection s selected) =
     (if isCorrect (selectedValues (equations s) selected)
      then score s + (level s * 10 + \<lfloor>timeLeft s\<rfloor>) else score s)"
    by (rule score_validateSelection)
next
  show "score (handleBubbleClick s i) =
     (if \<not> gameOver s \<and> feedbackStatus s = Neutral \<and> \<not> isTourActive s \<and>
         i \<notin> set (selectedIds s) \<and> length (selectedIds s) = 2 \<and>
         isCorrect (selectedValues (equations s) (selectedIds s @ [i]))
      then score s + (level s * 10 + \<lfloor>timeLeft s\<rfloor>) else score s)"
  proof (cases "\<not> gameOver s \<and> feedbackStatus s = Neutral \<and> \<not> isTourActive s")
    case True
    then show ?thesis
      by (simp add: handleBubbleClick_accepted score_validateSelection)
  next
    case False
    then have "handleBubbleClick s i = s"
      by (intro handleBubbleClick_ignored) blast
    with False show ?thesis by auto
  qed
qed (simp_all add: score_tick score_fire)

text \<open>Level 3 with 7.4 seconds left: the third tap of a correct selection adds 37, the
  third tap of an incorrect one adds nothing.\<close>

theorem C2_score_delta_witness:
  "score (handleBubbleClick
            (demoState\<lparr>level := 3, timeLeft := 37 / 5, selectedIds := [''A'', ''B'']\<rparr>) ''C'') = 37
   \<and> score (handleBubbleClick
            (demoState\<lparr>level := 3, timeLeft := 37 / 5, selectedIds := [''B'', ''A'']\<rparr>) ''C'') = 0"
proof -
  have f: "\<lfloor>37 / 5 :: rat\<rfloor> = 7"
    by (simp add: floor_eq_iff)
  note a = C2_score_delta [of "demoState\<lparr>level := 3, timeLeft := 37 / 5, selectedIds := [''A'', ''B'']\<rparr>"
                             "[]" "''C''" demoGen 0, THEN conjunct2, THEN conjunct1]
  note b = C2_score_delta [of "demoState\<lparr>level := 3, timeLeft := 37 / 5, selectedIds := [''B'', ''A'']\<rparr>"
                             "[]" "''C''" demoGen 0, THEN conjunct2, THEN conjunct1]
  have "score (handleBubbleClick
            (demoState\<lparr>level := 3, timeLeft := 37 / 5, selectedIds := [''A'', ''B'']\<rparr>) ''C'') = 37"
    unfolding a by (simp add: demoState_eq selectedValues_def resolve_demo isCorrect3 f)
  moreover have "score (handleBubbleClick
            (demoState\<lparr>level := 3, timeLeft := 37 / 5, selectedIds := [''B'', ''A'']\<rparr>) ''C'') = 0"
    unfolding b by (simp add: demoState_eq selectedValues_def resolve_demo isCorrect3 f)
  ultimately show ?thesis by simp
qed

text \<open>
  C3. As stated (a stop during the delay after a correct validation keeps that delayed
  transition from ever taking effect) the claim does not hold: \<open>handleStopGame\<close> only
  sets \<open>gameOver\<close>, and no handler clears a scheduled timeout. What holds: a stop sets
  \<open>gameOver\<close>, ends the countdown and makes bubble taps no-ops, and \<open>gameOver\<close> stays
  set whatever timeout fires afterwards; the scheduled timeouts all stay scheduled, and
  when the one of a correct validation fires after the stop, the level goes up by one and
  a new round starts (new batch, empty selection, 15 seconds, neutral feedback), with
  score and miss count as they were.
\<close>

theorem C3_stop_keeps_timeouts:
  assumes "\<not> gameOver s"
  shows "handleStopGame s = s\<lparr>gameOver := True, timerOn := False\<rparr>
       \<and> pending (handleStopGame s) = pending s
       \<and> step gen (handleStopGame s) Tick = None
       \<and> handleBubbleClick (handleStopGame s) i = handleStopGame s
       \<and> gameOver (fire gen (handleStopGame s) n)
       \<and> (n < length (pending s) \<longrightarrow> snd (pending s ! n) = AdvanceLevel lv \<longrightarrow>
            step gen (handleStopGame s) (Fire n) =
              Some (s\<lparr>gameOver := True, timerOn := False,
                      pending := take n (pending s) @ drop (Suc n) (pending s),
                      level := level s + 1, equations := gen (batchNo s) lv,
                      batchNo := Suc (batchNo s), selectedIds := [], timeLeft := 15,
                      feedbackStatus := Neutral\<rparr>))"
proof -
  have h: "handleStopGame s = s\<lparr>gameOver := True, timerOn := False\<rparr>"
    using assms by (rule handleStopGame_playing)
  have a: "step gen (handleStopGame s) Tick = None"
    by (simp add: h)
  have b: "handleBubbleClick (handleStopGame s) i = handleStopGame s"
    by (rule handleBubbleClick_ignored) (simp add: h)
  have c: "gameOver (fire gen (handleStopGame s) n)"
    by (simp add: gameOver_fire h)
  have d: "step gen (handleStopGame s) (Fire n) =
              Some (s\<lparr>gameOver := True, timerOn := False,
                      pending := take n (pending s) @ drop (Suc n) (pending s),
                      level := level s + 1, equations := gen (batchNo s) lv,
                      batchNo := Suc (batchNo s), selectedIds := [], timeLeft := 15,
                      feedbackStatus := Neutral\<rparr>)"
    if "n < length (pending s)" "snd (pending s ! n) = AdvanceLevel lv"
    using that by (simp add: h fire_def runDelayed_AdvanceLevel)
  from h a b c d show ?thesis by simp
qed

text \<open>The game stopped right after the correct selection A, B, C at level 1.\<close>

theorem C3_stop_keeps_timeouts_witness:
  "\<not> gameOver wonState
   \<and> (0 :: nat) < length (pending wonState)
   \<and> snd (pending wonState ! 0) = AdvanceLevel 2
   \<and> step demoGen (handleStopGame wonState) Tick = None
   \<and> step demoGen (handleStopGame wonState) (Fire 0) =
       Some \<lparr> isPlaying = True, level = 2, score = 25, timeLeft = 15, equations = demoBatch,
              selectedIds = [], gameOver = True, wrongAttempts = 0,
              feedbackStatus = Neutral, isTourActive = False, hasSeenTour = True,
              timerOn = False, batchNo = 2, pending = [] \<rparr>"
proof -
  have g: "\<not> gameOver wonState" by (simp add: wonState_eq)
  have n: "(0 :: nat) < length (pending wonState)" by (simp add: wonState_eq)
  have p: "snd (pending wonState ! 0) = AdvanceLevel 2" by (simp add: wonState_eq)
  note c = C3_stop_keeps_timeouts [OF g, of demoGen "''A''" 0 2]
  from c have t: "step demoGen (handleStopGame wonState) Tick = None"
    by blast
  from c n p have "step demoGen (handleStopGame wonState) (Fire 0) =
      Some (wonState\<lparr>gameOver := True, timerOn := False,
                      pending := take 0 (pending wonState) @ drop (Suc 0) (pending wonState),
                      level := level wonState + 1, equations := demoGen (batchNo wonState) 2,
                      batchNo := Suc (batchNo wonState), selectedIds := [], timeLeft := 15,
                      feedbackStatus := Neutral\<rparr>)"
    by blast
  then have "step demoGen (handleStopGame wonState) (Fire 0) =
       Some \<lparr> isPlaying = True, level = 2, score = 25, timeLeft = 15, equations = demoBatch,
              selectedIds = [], gameOver = True, wrongAttempts = 0,
              feedbackStatus = Neutral, isTourActive = False, hasSeenTour = True,
              timerOn = False, batchNo = 2, pending = [] \<rparr>"
    by (simp add: wonState_eq demoGen_def)
  with g n p t show ?thesis by blast
qed

text \<open>The run that refutes the claim as stated: start, select A, B, C (correct, so the
  level advance is scheduled with a delay of 1000 ms), stop, and let the timeout fire.
  The game is over with level 1 at the stop, and over with level 2 and a second batch
  after the timeout.\<close>

theorem C3_stop_counterexample:
  "run demoGen (initState True)
     [StartGame, BubbleClick ''A'', BubbleClick ''B'', BubbleClick ''C''] = Some wonState
   \<and> feedbackStatus wonState = Correct
   \<and> pending (handleStopGame wonState) = [(1000, AdvanceLevel 2)]
   \<and> gameOver (handleStopGame wonState)
   \<and> level (handleStopGame wonState) = 1
   \<and> gameOver (fire demoGen (handleStopGame wonState) 0)
   \<and> level (fire demoGen (handleStopGame wonState) 0) = 2
   \<and> batchNo (fire demoGen (handleStopGame wonState) 0) = Suc (batchNo (handleStopGame wonState))"
proof (intro conjI)
  show "run demoGen (initState True)
     [StartGame, BubbleClick ''A'', BubbleClick ''B'', BubbleClick ''C''] = Some wonState"
    by (rule run_wonState)
qed (simp_all add: wonState_eq handleStopGame_def timerEffect_def timerDeps_def fire_def
        runDelayed_def startLevel_def)

text \<open>
  C4. An incorrect validation sets the feedback to wrong, adds exactly one miss and
  schedules the feedback reset with a delay of 500 ms; selection, batch, level, score and
  time left stay as they are. The reset, when it fires, sets the feedback back to neutral
  and changes nothing else. The tap that completes an incorrect selection leaves the three
  ids selected.
\<close>

theorem C4_wrong_validation:
  assumes "\<not> isCorrect (selectedValues (equations s) selected)"
  shows "validateSelection s selected =
           s\<lparr>feedbackStatus := Wrong, wrongAttempts := wrongAttempts s + 1,
             pending := pending s @ [(500, ResetFeedback)]\<rparr>
       \<and> fire gen (validateSelection s selected) (length (pending s)) =
           s\<lparr>feedbackStatus := Neutral, wrongAttempts := wrongAttempts s + 1\<rparr>
       \<and> (\<not> gameOver s \<and> feedbackStatus s = Neutral \<and> \<not> isTourActive s \<and>
           selected = selectedIds s @ [i] \<and> i \<notin> set (selectedIds s) \<and> length selected = 3 \<longrightarrow>
           handleBubbleClick s i =
             s\<lparr>selectedIds := selected, feedbackStatus := Wrong,
               wrongAttempts := wrongAttempts s + 1,
               pending := pending s @ [(500, ResetFeedback)]\<rparr>)
       \<and> (snd (pending t ! n) = ResetFeedback \<longrightarrow>
           fire gen t n =
             t\<lparr>pending := take n (pending t) @ drop (Suc n) (pending t),
               feedbackStatus := Neutral\<rparr>)"
proof -
  have v: "validateSelection s selected =
           s\<lparr>feedbackStatus := Wrong, wrongAttempts := wrongAttempts s + 1,
             pending := pending s @ [(500, ResetFeedback)]\<rparr>"
    using assms by (rule validateSelection_wrong)
  have "fire gen (validateSelection s selected) (length (pending s)) =
          runDelayed gen ResetFeedback ((validateSelection s selected)\<lparr>pending := pending s\<rparr>)"
    by (rule fire_last) (simp add: v)
  also have "\<dots> = s\<lparr>feedbackStatus := Neutral, wrongAttempts := wrongAttempts s + 1\<rparr>"
    by (simp add: v runDelayed_def)
  finally have f: "fire gen (validateSelection s selected) (length (pending s)) =
           s\<lparr>feedbackStatus := Neutral, wrongAttempts := wrongAttempts s + 1\<rparr>" .
  have c: "handleBubbleClick s i =
             s\<lparr>selectedIds := selected, feedbackStatus := Wrong,
               wrongAttempts := wrongAttempts s + 1,
               pending := pending s @ [(500, ResetFeedback)]\<rparr>"
    if "\<not> gameOver s" "feedbackStatus s = Neutral" "\<not> isTourActive s"
       "selected = selectedIds s @ [i]" "i \<notin> set (selectedIds s)" "length selected = 3"
  proof -
    have "handleBubbleClick s i =
            validateSelection (s\<lparr>selectedIds := selected\<rparr>) selected"
      using that by (simp add: handleBubbleClick_accepted)
    also have "\<dots> = (s\<lparr>selectedIds := selected\<rparr>)\<lparr>feedbackStatus := Wrong,
                 wrongAttempts := wrongAttempts (s\<lparr>selectedIds := selected\<rparr>) + 1,
                 pending := pending (s\<lparr>selectedIds := selected\<rparr>) @ [(500, ResetFeedback)]\<rparr>"
      using assms by (intro validateSelection_wrong) simp
    finally show ?thesis by simp
  qed
  have r: "fire gen t n =
             t\<lparr>pending := take n (pending t) @ drop (Suc n) (pending t),
               feedbackStatus := Neutral\<rparr>"
    if "snd (pending t ! n) = ResetFeedback"
    using that by (simp add: fire_def runDelayed_def)
  from v f c r show ?thesis by blast
qed

text \<open>Tapping C after B and A (values 5, 2, 9) in a fresh game: one miss, the three ids
  stay selected, and the reset restores neutral feedback alone.\<close>

theorem C4_wrong_validation_witness:
  "\<not> isCorrect (selectedValues (equations (demoState\<lparr>selectedIds := [''B'', ''A'']\<rparr>)) [''B'', ''A'', ''C''])
   \<and> handleBubbleClick (demoState\<lparr>selectedIds := [''B'', ''A'']\<rparr>) ''C'' =
       demoState\<lparr>selectedIds := [''B'', ''A'', ''C''], feedbackStatus := Wrong, wrongAttempts := 1,
                 pending := [(500, ResetFeedback)]\<rparr>
   \<and> fire demoGen (handleBubbleClick (demoState\<lparr>selectedIds := [''B'', ''A'']\<rparr>) ''C'') 0 =
       demoState\<lparr>selectedIds := [''B'', ''A'', ''C''], wrongAttempts := 1\<rparr>"
proof -
  have w: "\<not> isCorrect (selectedValues (equations (demoState\<lparr>selectedIds := [''B'', ''A'']\<rparr>))
              [''B'', ''A'', ''C''])"
    by (simp add: demoState_eq selectedValues_def resolve_demo isCorrect3)
  note c = C4_wrong_validation [OF w, of demoGen "''C''"
             "handleBubbleClick (demoState\<lparr>selectedIds := [''B'', ''A'']\<rparr>) ''C''" 0]
  from c have k: "handleBubbleClick (demoState\<lparr>selectedIds := [''B'', ''A'']\<rparr>) ''C'' =
       demoState\<lparr>selectedIds := [''B'', ''A'', ''C''], feedbackStatus := Wrong, wrongAttempts := 1,
                 pending := [(500, ResetFeedback)]\<rparr>"
    by (simp add: demoState_eq)
  from c have "fire demoGen (handleBubbleClick (demoState\<lparr>selectedIds := [''B'', ''A'']\<rparr>) ''C'') 0 =
       demoState\<lparr>selectedIds := [''B'', ''A'', ''C''], wrongAttempts := 1\<rparr>"
    by (simp add: k) (simp add: demoState_eq)
  with w k show ?thesis by blast
qed



text \<open>
  C6. As stated (for every state with neutral feedback and the game not over) the claim
  does not hold: \<open>handleBubbleClick\<close> also returns at once while the tour is active. With
  the tour off as well: tapping a selected id removes it (whatever the size of the
  selection; exactly that id, the others keeping their order) and validates nothing;
  tapping a new id appends it, and the selection is validated exactly when the append makes
  it three ids long.
\<close>

theorem C6_bubble_click:
  assumes "\<not> gameOver s" "feedbackStatus s = Neutral" "\<not> isTourActive s"
  shows "(i \<in> set (selectedIds s) \<longrightarrow>
            handleBubbleClick s i = s\<lparr>selectedIds := filter (\<lambda>x. x \<noteq> i) (selectedIds s)\<rparr>)
       \<and> (i \<in> set (selectedIds s) \<longrightarrow> distinct (selectedIds s) \<longrightarrow>
            selectedIds (handleBubbleClick s i) = remove1 i (selectedIds s))
       \<and> (i \<notin> set (selectedIds s) \<longrightarrow>
            selectedIds (handleBubbleClick s i) = selectedIds s @ [i])
       \<and> (i \<notin> set (selectedIds s) \<longrightarrow> length (selectedIds s @ [i]) = 3 \<longrightarrow>
            handleBubbleClick s i =
              validateSelection (s\<lparr>selectedIds := selectedIds s @ [i]\<rparr>) (selectedIds s @ [i]))
       \<and> (i \<notin> set (selectedIds s) \<longrightarrow> length (selectedIds s @ [i]) \<noteq> 3 \<longrightarrow>
            handleBubbleClick s i = s\<lparr>selectedIds := selectedIds s @ [i]\<rparr>)
       \<and> ((feedbackStatus (handleBubbleClick s i) \<noteq> Neutral) =
            (i \<notin> set (selectedIds s) \<and> length (selectedIds s @ [i]) = 3))"
proof -
  note h = handleBubbleClick_accepted [OF assms, of i]
  have a: "i \<in> set (selectedIds s) \<longrightarrow>
            handleBubbleClick s i = s\<lparr>selectedIds := filter (\<lambda>x. x \<noteq> i) (selectedIds s)\<rparr>"
    by (simp add: h)
  have b: "i \<in> set (selectedIds s) \<longrightarrow> distinct (selectedIds s) \<longrightarrow>
            selectedIds (handleBubbleClick s i) = remove1 i (selectedIds s)"
    by (simp add: h filter_remove1)
  have c: "i \<notin> set (selectedIds s) \<longrightarrow>
            selectedIds (handleBubbleClick s i) = selectedIds s @ [i]"
    by (simp add: h validateSelection_def)
  have d: "i \<notin> set (selectedIds s) \<longrightarrow> length (selectedIds s @ [i]) = 3 \<longrightarrow>
            handleBubbleClick s i =
              validateSelection (s\<lparr>selectedIds := selectedIds s @ [i]\<rparr>) (selectedIds s @ [i])"
    by (simp add: h)
  have e: "i \<notin> set (selectedIds s) \<longrightarrow> length (selectedIds s @ [i]) \<noteq> 3 \<longrightarrow>
            handleBubbleClick s i = s\<lparr>selectedIds := selectedIds s @ [i]\<rparr>"
    by (simp add: h)
  have f: "(feedbackStatus (handleBubbleClick s i) \<noteq> Neutral) =
            (i \<notin> set (selectedIds s) \<and> length (selectedIds s @ [i]) = 3)"
    using assms by (simp add: h feedback_validateSelection)
  from a b c d e f show ?thesis by blast
qed

text \<open>With A and B selected in a running game: tapping A leaves B, nothing validated;
  tapping C completes the selection and validates it.\<close>

theorem C6_bubble_click_witness:
  "\<not> gameOver (demoState\<lparr>selectedIds := [''A'', ''B'']\<rparr>)
   \<and> feedbackStatus (demoState\<lparr>selectedIds := [''A'', ''B'']\<rparr>) = Neutral
   \<and> \<not> isTourActive (demoState\<lparr>selectedIds := [''A'', ''B'']\<rparr>)
   \<and> handleBubbleClick (demoState\<lparr>selectedIds := [''A'', ''B'']\<rparr>) ''A'' =
       demoState\<lparr>selectedIds := [''B'']\<rparr>
   \<and> handleBubbleClick (demoState\<lparr>selectedIds := [''A'', ''B'']\<rparr>) ''C'' = wonState"
proof -
  have g: "\<not> gameOver (demoState\<lparr>selectedIds := [''A'', ''B'']\<rparr>)"
    by (simp add: demoState_eq)
  have n: "feedbackStatus (demoState\<lparr>selectedIds := [''A'', ''B'']\<rparr>) = Neutral"
    by (simp add: demoState_eq)
  have t: "\<not> isTourActive (demoState\<lparr>selectedIds := [''A'', ''B'']\<rparr>)"
    by (simp add: demoState_eq)
  from C6_bubble_click [OF g n t, of "''A''"]
  have a: "handleBubbleClick (demoState\<lparr>selectedIds := [''A'', ''B'']\<rparr>) ''A'' =
       demoState\<lparr>selectedIds := [''B'']\<rparr>"
    by simp
  from C6_bubble_click [OF g n t, of "''C''"]
  have "handleBubbleClick (demoState\<lparr>selectedIds := [''A'', ''B'']\<rparr>) ''C'' =
      validateSelection (demoState\<lparr>selectedIds := [''A'', ''B'', ''C'']\<rparr>) [''A'', ''B'', ''C'']"
    by simp
  also have "\<dots> = wonState"
    by (simp add: wonState_eq demoState_eq validateSelection_def selectedValues_def
        resolve_demo isCorrect3)
  finally show ?thesis using g n t a by blast
qed

text \<open>A first game starts with the tour active: feedback neutral, game not over, and a
  tap on the unselected bubble A selects nothing.\<close>

theorem C6_tour_counterexample:
  "run demoGen (initState False) [StartGame] = Some tourState
   \<and> \<not> gameOver tourState
   \<and> feedbackStatus tourState = Neutral
   \<and> ''A'' \<notin> set (selectedIds tourState)
   \<and> selectedIds (handleBubbleClick tourState ''A'') = []
   \<and> selectedIds (handleBubbleClick tourState ''A'') \<noteq> selectedIds tourState @ [''A'']"
proof (intro conjI)
  show "run demoGen (initState False) [StartGame] = Some tourState"
    by (simp add: tourState_def)
qed (simp_all add: tourState_eq handleBubbleClick_def)

text \<open>
  C7. An id that no equation of the batch carries is not found by the lookup and resolves
  to the value 0. Validation has no failing branch: for any selection it ends with a
  verdict, correct or wrong, and three ids none of which is in the batch are judged as
  0, 0, 0, which is correct.
\<close>

theorem C7_missing_id:
  "(i \<notin> ident ` set eqs \<longrightarrow> find (\<lambda>e. ident e = i) eqs = None \<and> resolveValue eqs i = 0)
   \<and> feedbackStatus (validateSelection s selected) \<in> {Correct, Wrong}
   \<and> (length selected = 3 \<longrightarrow> set selected \<inter> ident ` set (equations s) = {} \<longrightarrow>
        selectedValues (equations s) selected = [0, 0, 0] \<and>
        feedbackStatus (validateSelection s selected) = Correct)"
proof (intro conjI impI)
  assume "i \<notin> ident ` set eqs"
  then show "find (\<lambda>e. ident e = i) eqs = None" by (simp add: find_ident_None)
next
  assume "i \<notin> ident ` set eqs"
  then show "resolveValue eqs i = 0" by (rule resolveValue_missing)
next
  show "feedbackStatus (validateSelection s selected) \<in> {Correct, Wrong}"
    by (simp add: feedback_validateSelection)
next
  assume l: "length selected = 3" and m: "set selected \<inter> ident ` set (equations s) = {}"
  obtain a b c where sel: "selected = [a, b, c]" using l by (rule length3E)
  have "resolveValue (equations s) x = 0" if "x \<in> set selected" for x
    using that m by (intro resolveValue_missing) blast
  then show v: "selectedValues (equations s) selected = [0, 0, 0]"
    by (simp add: sel selectedValues_def)
  then show "feedbackStatus (validateSelection s selected) = Correct"
    by (simp add: feedback_validateSelection isCorrect3)
qed

text \<open>The ids X, Y, Z against the batch B, A, C; and Z between A and C, judged as
  2, 0, 9, which is wrong.\<close>

theorem C7_missing_id_witness:
  "''Z'' \<notin> ident ` set demoBatch
   \<and> resolveValue demoBatch ''Z'' = 0
   \<and> length [''X'', ''Y'', ''Z''] = 3
   \<and> set [''X'', ''Y'', ''Z''] \<inter> ident ` set (equations demoState) = {}
   \<and> feedbackStatus (validateSelection demoState [''X'', ''Y'', ''Z'']) = Correct
   \<and> feedbackStatus (validateSelection demoState [''A'', ''Z'', ''C'']) = Wrong"
proof -
  have z: "''Z'' \<notin> ident ` set demoBatch" by (simp add: demoBatch_def)
  have l: "length [''X'', ''Y'', ''Z''] = 3" by simp
  have m: "set [''X'', ''Y'', ''Z''] \<inter> ident ` set (equations demoState) = {}"
    by (simp add: demoState_eq demoBatch_def)
  note c = C7_missing_id [of "''Z''" demoBatch demoState "[''X'', ''Y'', ''Z'']"]
  from c z have r: "resolveValue demoBatch ''Z'' = 0" by blast
  from c l m have k: "feedbackStatus (validateSelection demoState [''X'', ''Y'', ''Z'']) = Correct"
    by blast
  have "feedbackStatus (validateSelection demoState [''A'', ''Z'', ''C'']) = Wrong"
    by (simp add: feedback_validateSelection demoState_eq selectedValues_def resolve_demo r
        isCorrect3)
  with z r l m k show ?thesis by blast
qed

text \<open>
  C8. A tick that finds \<open>timeLeft\<close> above the literal \<open>0.1\<close> changes \<open>timeLeft\<close>
  alone, to the double nearest to \<open>timeLeft - 0.1\<close>; while \<open>timeLeft\<close> is between 0 and
  15 that is the step of one tenth up to an error of \<open>2^(-49)\<close>, and it is not negative.
  The test \<open>timeLeft <= 0.1\<close> is the test whether the decremented result would be at or
  below 0: then the tick is the timer expiring, it adds one miss, turns the feedback
  wrong, schedules the restart of the round at the level of that moment after 1000 ms,
  stops the interval and sets \<open>timeLeft\<close> to 0. In every state a run from the initial
  state reaches, \<open>timeLeft\<close> is between 0 and 15, and the interval is live only while the
  game is played and not over.
\<close>

theorem C8_countdown:
  "(timeLeft s \<le> doubleTenth \<longrightarrow>
      tick s =
        s\<lparr>timerOn := False, wrongAttempts := wrongAttempts s + 1, feedbackStatus := Wrong,
          pending := pending s @ [(1000, RestartLevel (level s))], timeLeft := 0\<rparr>)
   \<and> (\<not> timeLeft s \<le> doubleTenth \<longrightarrow>
      tick s = s\<lparr>timeLeft := toDouble (timeLeft s - doubleTenth)\<rparr>)
   \<and> (timeLeft s \<le> doubleTenth) = (timeLeft s - doubleTenth \<le> 0)
   \<and> doubleTenth = 3602879701896397 / 36028797018963968
   \<and> (0 \<le> timeLeft s \<longrightarrow> timeLeft s \<le> 15 \<longrightarrow> \<not> timeLeft s \<le> doubleTenth \<longrightarrow>
      0 \<le> timeLeft (tick s) \<and> timeLeft (tick s) \<le> 15 \<and>
      \<bar>timeLeft (tick s) - (timeLeft s - 1 / 10)\<bar> \<le> 1 / 2 ^ 49)
   \<and> (run gen (initState seen) es = Some s' \<longrightarrow>
      0 \<le> timeLeft s' \<and> timeLeft s' \<le> 15 \<and> (timerOn s' \<longrightarrow> isPlaying s' \<and> \<not> gameOver s'))"
proof (intro conjI impI)
  assume "timeLeft s \<le> doubleTenth"
  then show "tick s =
        s\<lparr>timerOn := False, wrongAttempts := wrongAttempts s + 1, feedbackStatus := Wrong,
          pending := pending s @ [(1000, RestartLevel (level s))], timeLeft := 0\<rparr>"
    by (rule tick_expired)
next
  assume "\<not> timeLeft s \<le> doubleTenth"
  then show "tick s = s\<lparr>timeLeft := toDouble (timeLeft s - doubleTenth)\<rparr>"
    by (rule tick_running)
next
  show "(timeLeft s \<le> doubleTenth) = (timeLeft s - doubleTenth \<le> 0)"
    by simp
next
  show "doubleTenth = 3602879701896397 / 36028797018963968"
    by (rule doubleTenth_eq)
next
  assume a: "0 \<le> timeLeft s" "timeLeft s \<le> 15" "\<not> timeLeft s \<le> doubleTenth"
  then have "timeInRange (tick s)"
    by (intro timeInRange_tick) (simp add: timeInRange_def)
  then show "0 \<le> timeLeft (tick s)" and "timeLeft (tick s) \<le> 15"
    by (simp_all add: timeInRange_def)
  from a(2,3) show "\<bar>timeLeft (tick s) - (timeLeft s - 1 / 10)\<bar> \<le> 1 / 2 ^ 49"
    by (rule tick_step_error)
next
  assume r: "run gen (initState seen) es = Some s'"
  have "timeInRange (initState seen)" by (simp add: initState_def timeInRange_def)
  with r have "timeInRange s'" by (rule timeInRange_run)
  then show "0 \<le> timeLeft s'" and "timeLeft s' \<le> 15"
    by (simp_all add: timeInRange_def)
  assume on: "timerOn s'"
  have "timerSound (initState seen)" by (simp add: initState_def timerSound_def)
  with r have "timerSound s'" by (rule timerSound_run)
  with on show "isPlaying s'" and "\<not> gameOver s'" by (simp_all add: timerSound_def)
qed

text \<open>A round from its start: the first tick leaves 14.9 seconds, the third
  14.700000000000001, the 150th 3.655409308578328e-14, and the 151st is the expiry.\<close>

theorem C8_countdown_witness:
  "tick demoState = demoState\<lparr>timeLeft := 8387954305977549 / 562949953421312\<rparr>
   \<and> run demoGen (initState True) [StartGame, Tick, Tick, Tick] =
       Some (demoState\<lparr>timeLeft := 8275364315293287 / 562949953421312\<rparr>)
   \<and> run demoGen (initState True) (StartGame # replicate 150 Tick) =
       Some (demoState\<lparr>timeLeft := 1317 / 36028797018963968\<rparr>)
   \<and> 0 \<le> timeLeft (demoState\<lparr>timeLeft := 1317 / 36028797018963968\<rparr>)
   \<and> timeLeft (demoState\<lparr>timeLeft := 1317 / 36028797018963968\<rparr>) \<le> doubleTenth
   \<and> isPlaying (demoState\<lparr>timeLeft := 1317 / 36028797018963968\<rparr>)
   \<and> tick (demoState\<lparr>timeLeft := 1317 / 36028797018963968\<rparr>) =
       demoState\<lparr>timeLeft := 0, timerOn := False, wrongAttempts := 1, feedbackStatus := Wrong,
                 pending := [(1000, RestartLevel 1)]\<rparr>"
proof -
  let ?last = "demoState\<lparr>timeLeft := 1317 / 36028797018963968\<rparr>"
  have s: "step demoGen (initState True) StartGame = Some demoState"
    by (simp add: demoState_def)
  have on: "timerOn demoState" and t15: "timeLeft demoState = 15"
    by (simp_all add: demoState_eq)
  have r150: "run demoGen (initState True) (StartGame # replicate 150 Tick) = Some ?last"
    using s run_ticks_150 [OF on t15, of demoGen] by simp
  have "decrements (take 4 countdownValues)"
    using decrements_countdownValues by (rule decrements_take)
  then have d: "decrements (15 # [8387954305977549 / 562949953421312,
      4165829655317709 / 281474976710656, 8275364315293287 / 562949953421312])"
    by (simp only: countdownValues_first)
  from run_ticks [OF d on t15, of demoGen]
  have "run demoGen demoState [Tick, Tick, Tick] =
      Some (demoState\<lparr>timeLeft := 8275364315293287 / 562949953421312\<rparr>)"
    by (simp del: run.simps add: numeral_3_eq_3)
  with s have r3: "run demoGen (initState True) [StartGame, Tick, Tick, Tick] =
       Some (demoState\<lparr>timeLeft := 8275364315293287 / 562949953421312\<rparr>)"
    by simp
  have le: "timeLeft ?last \<le> doubleTenth"
    by (simp add: doubleTenth_eq)
  have gt: "\<not> timeLeft demoState \<le> doubleTenth"
    by (simp add: t15 doubleTenth_eq)
  note c = C8_countdown [of demoState demoGen True "StartGame # replicate 150 Tick" ?last]
  note e = C8_countdown [of ?last demoGen True "StartGame # replicate 150 Tick" ?last]
  from c gt have "tick demoState = demoState\<lparr>timeLeft := toDouble (timeLeft demoState - doubleTenth)\<rparr>"
    by blast
  moreover from d have "toDouble (15 - doubleTenth) = 8387954305977549 / 562949953421312"
    by simp
  ultimately have t1: "tick demoState = demoState\<lparr>timeLeft := 8387954305977549 / 562949953421312\<rparr>"
    by (simp add: t15)
  from c r150 have n: "0 \<le> timeLeft ?last"
    by blast
  have "timerOn ?last" by (simp add: on)
  with c r150 have p: "isPlaying ?last"
    by blast
  from e le have "tick ?last =
      ?last\<lparr>timerOn := False, wrongAttempts := wrongAttempts ?last + 1, feedbackStatus := Wrong,
          pending := pending ?last @ [(1000, RestartLevel (level ?last))], timeLeft := 0\<rparr>"
    by blast
  then have x: "tick ?last =
       demoState\<lparr>timeLeft := 0, timerOn := False, wrongAttempts := 1, feedbackStatus := Wrong,
                 pending := [(1000, RestartLevel 1)]\<rparr>"
    by (simp add: demoState_eq)
  from t1 r3 r150 n le p x show ?thesis by blast
qed

text \<open>
  C9. For every level from 1 on and whatever the random draws are, \<open>generate\<close> succeeds
  and returns exactly three equations, whose ids are pairwise different and each of whose
  values is what its display text evaluates to; a level started with this generator has
  such a batch.
\<close>

theorem C9_generate:
  assumes "1 \<le> lv"
  shows "\<exists>eqs. generate rnd lv = Some eqs
             \<and> length eqs = 3
             \<and> distinct (map ident eqs)
             \<and> (\<forall>e \<in> set eqs. evalExpression (expression e) = Some (val e))
             \<and> equations (startLevel (specGenerator rnds) lv s) =
                 map (makeEquation (rnds (batchNo s)) lv) [0, 1, 2]
             \<and> length (equations (startLevel (specGenerator rnds) lv s)) = 3"
proof -
  have g: "generate r lv = Some (map (makeEquation r lv) [0, 1, 2])" for r
    using assms by (simp add: generate_def)
  have "\<forall>e \<in> set (map (makeEquation rnd lv) [0, 1, 2]).
          evalExpression (expression e) = Some (val e)"
    by (simp add: evalExpression_makeEquation)
  moreover have "distinct (map ident (map (makeEquation rnd lv) [0, 1, 2]))"
    by (rule distinct_ident_batch)
  moreover have "equations (startLevel (specGenerator rnds) lv s) =
                 map (makeEquation (rnds (batchNo s)) lv) [0, 1, 2]"
    by (simp add: startLevel_def specGenerator_def g)
  ultimately show ?thesis
    using g [of rnd] by simp
qed

text \<open>Level 1 with the draws 3, 10, 17, ...: the batch is \<open>4 + 1\<close>, \<open>5 + 2\<close>,
  \<open>6 + 3\<close> with the values 5, 7, 9.\<close>

theorem C9_generate_witness:
  "(1 :: int) \<le> 1
   \<and> generate demoDraws 1 =
       Some [\<lparr>ident = ''eq0'', expression = ''4 + 1'', val = 5\<rparr>,
             \<lparr>ident = ''eq1'', expression = ''5 + 2'', val = 7\<rparr>,
             \<lparr>ident = ''eq2'', expression = ''6 + 3'', val = 9\<rparr>]
   \<and> evalExpression ''4 + 1'' = Some 5
   \<and> evalExpression ''5 + 2'' = Some 7
   \<and> evalExpression ''6 + 3'' = Some 9"
proof -
  have h: "(1 :: int) \<le> 1" by simp
  have g: "generate demoDraws 1 =
       Some [\<lparr>ident = ''eq0'', expression = ''4 + 1'', val = 5\<rparr>,
             \<lparr>ident = ''eq1'', expression = ''5 + 2'', val = 7\<rparr>,
             \<lparr>ident = ''eq2'', expression = ''6 + 3'', val = 9\<rparr>]"
    by code_simp
  from C9_generate [OF h, of demoDraws "\<lambda>k. demoDraws" demoState]
  obtain eqs where e: "generate demoDraws 1 = Some eqs"
    and v: "\<forall>e \<in> set eqs. evalExpression (expression e) = Some (val e)"
    by blast
  from e g have "eqs = [\<lparr>ident = ''eq0'', expression = ''4 + 1'', val = 5\<rparr>,
             \<lparr>ident = ''eq1'', expression = ''5 + 2'', val = 7\<rparr>,
             \<lparr>ident = ''eq2'', expression = ''6 + 3'', val = 9\<rparr>]"
    by simp
  with v have "evalExpression ''4 + 1'' = Some 5" "evalExpression ''5 + 2'' = Some 7"
    "evalExpression ''6 + 3'' = Some 9"
    by simp_all
  with h g show ?thesis by blast
qed

text \<open>
  C10. In every state a run from the initial state reaches, no id occurs twice in
  \<open>selectedIds\<close>: a tap keeps a selection without repetitions free of them (it removes
  the tapped id or appends one that is not there), and starting a level empties the
  selection.
\<close>

theorem C10_selection_distinct:
  "(run gen (initState seen) es = Some s \<longrightarrow> distinct (selectedIds s))
   \<and> (distinct (selectedIds t) \<longrightarrow> distinct (selectedIds (handleBubbleClick t i)))
   \<and> set (selectedIds (handleBubbleClick t i)) \<subseteq> insert i (set (selectedIds t))
   \<and> selectedIds (startLevel gen lv t) = []"
proof (intro conjI impI)
  assume "run gen (initState seen) es = Some s"
  moreover have "distinct (selectedIds (initState seen))" by (simp add: initState_def)
  ultimately show "distinct (selectedIds s)" by (rule distinct_run)
next
  assume "distinct (selectedIds t)"
  then show "distinct (selectedIds (handleBubbleClick t i))"
    by (rule distinct_handleBubbleClick)
next
  show "set (selectedIds (handleBubbleClick t i)) \<subseteq> insert i (set (selectedIds t))"
    by (auto simp: handleBubbleClick_def Let_def selectedIds_validateSelection)
next
  show "selectedIds (startLevel gen lv t) = []"
    by (simp add: startLevel_def)
qed

text \<open>After start and the taps A, B, A, C the selection is B, C.\<close>

theorem C10_selection_distinct_witness:
  "run demoGen (initState True)
     [StartGame, BubbleClick ''A'', BubbleClick ''B'', BubbleClick ''A'', BubbleClick ''C'']
     = Some (demoState\<lparr>selectedIds := [''B'', ''C'']\<rparr>)
   \<and> distinct (selectedIds (demoState\<lparr>selectedIds := [''B'', ''C'']\<rparr>))
   \<and> selectedIds (demoState\<lparr>selectedIds := [''B'', ''C'']\<rparr>) = [''B'', ''C'']"
proof -
  have a: "handleBubbleClick demoState ''A'' = demoState\<lparr>selectedIds := [''A'']\<rparr>"
    by (simp add: demoState_eq handleBubbleClick_def)
  have b: "handleBubbleClick (demoState\<lparr>selectedIds := [''A'']\<rparr>) ''B'' =
           demoState\<lparr>selectedIds := [''A'', ''B'']\<rparr>"
    by (simp add: demoState_eq handleBubbleClick_def)
  have c: "handleBubbleClick (demoState\<lparr>selectedIds := [''A'', ''B'']\<rparr>) ''A'' =
           demoState\<lparr>selectedIds := [''B'']\<rparr>"
    by (simp add: demoState_eq handleBubbleClick_def)
  have d: "handleBubbleClick (demoState\<lparr>selectedIds := [''B'']\<rparr>) ''C'' =
           demoState\<lparr>selectedIds := [''B'', ''C'']\<rparr>"
    by (simp add: demoState_eq handleBubbleClick_def)
  have "step demoGen (initState True) StartGame = Some demoState"
    by (simp add: demoState_def)
  then have r: "run demoGen (initState True)
     [StartGame, BubbleClick ''A'', BubbleClick ''B'', BubbleClick ''A'', BubbleClick ''C'']
     = Some (demoState\<lparr>selectedIds := [''B'', ''C'']\<rparr>)"
    by (simp add: a b c d)
  from C10_selection_distinct [of demoGen True
         "[StartGame, BubbleClick ''A'', BubbleClick ''B'', BubbleClick ''A'', BubbleClick ''C'']"
         "demoState\<lparr>selectedIds := [''B'', ''C'']\<rparr>" demoState "''A''" 1] r
  have "distinct (selectedIds (demoState\<lparr>selectedIds := [''B'', ''C'']\<rparr>))"
    by blast
  with r show ?thesis by simp
qed

end
